theory Spec2Isabelle
  imports Main "HOL-Library.Word"
begin

section \<open>Data model\<close>

text \<open>
  Go strings are byte sequences and are modelled as \<open>string\<close>. An \<open>int64\<close>, a
  \<open>uint64\<close> and the bits of a \<open>float64\<close> are 64-bit words. A \<open>time.Time\<close> is
  modelled by what \<open>UnixNano\<close> reads of it: the seconds since the Unix epoch and the
  nanoseconds within the second.
\<close>

type_synonym int64 = "64 word"
type_synonym uint64 = "64 word"
type_synonym float64 = "64 word"

record Time =
  unixSec :: int64
  nsec :: "32 word"

text \<open>
  The dynamic values an \<open>interface{}\<close> holds in this program. \<open>VOther T\<close> stands for a
  value of any other dynamic type, \<open>T\<close> being what \<open>%T\<close> prints of it (the nil
  interface prints \<open><nil>\<close>); it is what reaches the \<open>default\<close> branch of a type
  switch.
\<close>

datatype val =
    VInt int64
  | VUint uint64
  | VFloat float64
  | VBool bool
  | VString string
  | VTime Time
  | VOther string

datatype numerr = ErrSyntax | ErrRange

text \<open>
  Errors as values. Every \<open>fmt.Errorf\<close> of the source is a constructor whose
  arguments are the arguments of the format, in the order of the format.
\<close>

datatype error =
    EOF
    \<comment> \<open>\<open>io.EOF\<close>\<close>
  | LibError string
    \<comment> \<open>any other error of \<open>encoding/csv\<close>, \<open>strconv.ParseFloat\<close> or \<open>time.Parse\<close>\<close>
  | NumError string string numerr
    \<comment> \<open>\<open>*strconv.NumError{Func, Num, Err}\<close>\<close>
  | NoColumns nat
    \<comment> \<open>\<open>no columns in table header at line %d\<close>\<close>
  | InconsistentHeader nat nat
    \<comment> \<open>\<open>inconsistent table header (got %d items want %d)\<close>\<close>
  | InconsistentColumns nat
    \<comment> \<open>\<open>inconsistent number of columns at line %d\<close>\<close>
  | CannotParse string string nat
    \<comment> \<open>\<open>cannot parse %q as type %q at line %d\<close>\<close>
  | CannotConvertDefault string string error
    \<comment> \<open>\<open>cannot convert default value %q to type %q: %v\<close>\<close>
  | UnknownTimeFormat string
    \<comment> \<open>\<open>unknown time format %q\<close>\<close>
  | CannotGetTableInfo error
    \<comment> \<open>\<open>cannot get table info for columns: %v\<close>\<close>
  | ColumnWrongType string string string
    \<comment> \<open>\<open><column> column has wrong type, got %q want %q\<close>\<close>
  | NoColumnFound string
    \<comment> \<open>\<open>no <column> column found in table\<close>\<close>
  | UnexpectedValueTypeInValue string
    \<comment> \<open>\<open>unexpected value type in _value %T\<close>\<close>
  | PanicUnexpectedValueType string
    \<comment> \<open>\<open>panic(fmt.Errorf("unexpected value type %T", v))\<close>\<close>
  | PanicIndexOutOfRange int nat
    \<comment> \<open>run-time panic: index out of range\<close>
  | PanicTypeAssertion string
    \<comment> \<open>run-time panic: interface conversion, the value is not a \<open>time.Time\<close>\<close>

record column =
  Index :: nat
  Name :: string
  Group :: bool
  Default :: "val option"
  Type :: string

type_synonym row = "string \<rightharpoonup> val"

record table =
  Columns :: "string \<rightharpoonup> column"
  Rows :: "row list"

text \<open>The zero value of \<open>column\<close>, as \<open>make([]column, n)\<close> fills a slice with.\<close>

definition column0 :: column where
  "column0 = \<lparr>Index = 0, Name = [], Group = False, Default = None, Type = []\<rparr>"

section \<open>The Go library\<close>

text \<open>
  The library functions the program calls. The short ones are written out;
  \<open>strconv.ParseFloat\<close>, \<open>time.Parse\<close> and the text \<open>fmt\<close> prints of a
  \<open>float64\<close> are parameters: the decoder and the encoder take them in a record.
\<close>

record golib =
  ParseFloat :: "string \<Rightarrow> error + float64"
  \<comment> \<open>\<open>strconv.ParseFloat(s, 64)\<close>\<close>
  timeParse :: "string \<Rightarrow> string \<Rightarrow> error + Time"
  \<comment> \<open>\<open>time.Parse(layout, s)\<close>\<close>
  SprintFloat :: "float64 \<Rightarrow> string"
  \<comment> \<open>\<open>fmt.Sprint(x)\<close> of a \<open>float64\<close>\<close>

definition HasPrefix :: "string \<Rightarrow> string \<Rightarrow> bool" where
  "HasPrefix s p = (take (length p) s = p)"

definition TrimPrefix :: "string \<Rightarrow> string \<Rightarrow> string" where
  "TrimPrefix s p = (if HasPrefix s p then drop (length p) s else s)"

definition ParseBool :: "string \<Rightarrow> error + bool" where
  "ParseBool s =
     (if s \<in> set [''1'', ''t'', ''T'', ''TRUE'', ''true'', ''True''] then Inr True
      else if s \<in> set [''0'', ''f'', ''F'', ''FALSE'', ''false'', ''False''] then Inr False
      else Inl (NumError ''ParseBool'' s ErrSyntax))"

definition isDigit :: "char \<Rightarrow> bool" where
  "isDigit c = (48 \<le> (of_char c :: nat) \<and> (of_char c :: nat) \<le> 57)"

definition digitVal :: "char \<Rightarrow> nat" where
  "digitVal c = of_char c - 48"

text \<open>
  The loop of \<open>strconv.ParseUint(s, 10, 64)\<close> over the bytes, \<open>n\<close> being the value
  read so far: a byte that is not a digit is a syntax error, a value beyond 64 bits is
  a range error, whichever comes first.
\<close>

fun uintLoop :: "nat \<Rightarrow> string \<Rightarrow> numerr + nat" where
  "uintLoop n [] = Inr n"
| "uintLoop n (c # cs) =
     (if \<not> isDigit c then Inl ErrSyntax
      else if 10 * n + digitVal c \<ge> 2 ^ 64 then Inl ErrRange
      else uintLoop (10 * n + digitVal c) cs)"

text \<open>\<open>strconv.ParseUint(s, 10, 64)\<close>, reporting its failures under the name \<open>fn\<close>.\<close>

definition parseUint10 :: "string \<Rightarrow> string \<Rightarrow> string \<Rightarrow> error + nat" where
  "parseUint10 fn s0 s =
     (if s = [] then Inl (NumError fn s0 ErrSyntax)
      else case uintLoop 0 s of
        Inl k \<Rightarrow> Inl (NumError fn s0 k)
      | Inr n \<Rightarrow> Inr n)"

definition ParseUint :: "string \<Rightarrow> error + uint64" where
  "ParseUint s =
     (case parseUint10 ''ParseUint'' s s of Inl e \<Rightarrow> Inl e | Inr n \<Rightarrow> Inr (of_nat n))"

text \<open>\<open>strconv.ParseInt(s, 10, 64)\<close>: an optional sign, then an unsigned number.\<close>

definition ParseInt :: "string \<Rightarrow> error + int64" where
  "ParseInt s =
     (if s = [] then Inl (NumError ''ParseInt'' s ErrSyntax)
      else
        let neg = (hd s = CHR ''-'');
            s1 = (if hd s = CHR ''+'' \<or> hd s = CHR ''-'' then tl s else s)
        in case parseUint10 ''ParseInt'' s s1 of
          Inl e \<Rightarrow> Inl e
        | Inr n \<Rightarrow>
            if \<not> neg \<and> n \<ge> 2 ^ 63 then Inl (NumError ''ParseInt'' s ErrRange)
            else if neg \<and> n > 2 ^ 63 then Inl (NumError ''ParseInt'' s ErrRange)
            else Inr (if neg then - of_nat n else of_nat n))"

text \<open>\<open>math.IsInf(x, 0)\<close> and \<open>math.IsNaN(x)\<close>, read off the bits of the float.\<close>

definition IsInf :: "float64 \<Rightarrow> bool" where
  "IsInf x = (and x 0x7FFFFFFFFFFFFFFF = 0x7FF0000000000000)"

definition IsNaN :: "float64 \<Rightarrow> bool" where
  "IsNaN x = (and x 0x7FFFFFFFFFFFFFFF > 0x7FF0000000000000)"

section \<open>The value converter\<close>

definition timeFormats :: "string \<Rightarrow> string" where
  "timeFormats k =
     (if k = ''RFC3339'' then ''2006-01-02T15:04:05Z07:00''
      else if k = ''RFC3339Nano'' then ''2006-01-02T15:04:05.999999999Z07:00''
      else [])"

text \<open>
  The message \<open>unknown datatype %q\<close> that the last branch writes to the standard error
  stream is not part of the result and is left out.
\<close>

definition convertToType :: "golib \<Rightarrow> string \<Rightarrow> string \<Rightarrow> error + val" where
  "convertToType L s typ =
     (if typ = ''boolean'' then
        (case ParseBool s of Inl e \<Rightarrow> Inl e | Inr b \<Rightarrow> Inr (VBool b))
      else if typ = ''long'' then
        (case ParseInt s of Inl e \<Rightarrow> Inl e | Inr n \<Rightarrow> Inr (VInt n))
      else if typ = ''unsignedLong'' then
        (case ParseUint s of Inl e \<Rightarrow> Inl e | Inr n \<Rightarrow> Inr (VUint n))
      else if typ = ''double'' then
        (case ParseFloat L s of
           Inl e \<Rightarrow> Inl e
         | Inr x \<Rightarrow> if IsInf x \<or> IsNaN x then Inr (VString s) else Inr (VFloat x))
      else if typ = ''string'' \<or> typ = ''tag'' \<or> typ = [] then Inr (VString s)
      else if length (TrimPrefix typ ''dateTime:'') \<noteq> length typ then
        (let layout = timeFormats (TrimPrefix typ ''dateTime:'')
         in if layout = [] then Inl (UnknownTimeFormat typ)
            else (case timeParse L layout s of Inl e \<Rightarrow> Inl e | Inr t \<Rightarrow> Inr (VTime t)))
      else Inr (VString s))"

section \<open>The peekable row source\<close>

text \<open>
  The \<open>csv.Reader\<close> is modelled by the results its \<open>Read\<close> returns, one for each
  call, and the number of calls made so far; after the last result every call returns
  \<open>(nil, io.EOF)\<close>.
\<close>

type_synonym record_result = "string list \<times> error option"

record csv_Reader =
  results :: "record_result list"
  calls :: nat

text \<open>What the call number \<open>i\<close> (from 0) returns, over the results \<open>rs\<close>.\<close>

definition csv_nth :: "record_result list \<Rightarrow> nat \<Rightarrow> record_result" where
  "csv_nth rs i = (if i < length rs then rs ! i else ([], Some EOF))"

definition csv_Read :: "csv_Reader \<Rightarrow> record_result \<times> csv_Reader" where
  "csv_Read c = (csv_nth (results c) (calls c), c\<lparr>calls := calls c + 1\<rparr>)"





record csvReader =
  hasPeeked :: bool
  row :: "string list"
  err :: "error option"
  r :: csv_Reader
  line :: nat

definition Read :: "csvReader \<Rightarrow> record_result \<times> csvReader" where
  "Read rd =
     (if hasPeeked rd then ((row rd, err rd), rd\<lparr>hasPeeked := False\<rparr>)
      else (fst (csv_Read (r rd)), rd\<lparr>line := line rd + 1, r := snd (csv_Read (r rd))\<rparr>))"

definition Peek :: "csvReader \<Rightarrow> record_result \<times> csvReader" where
  "Peek rd =
     (if hasPeeked rd then ((row rd, err rd), rd)
      else (fst (csv_Read (r rd)),
            rd\<lparr>line := line rd + 1, hasPeeked := True,
               row := fst (fst (csv_Read (r rd))), err := snd (fst (csv_Read (r rd))),
               r := snd (csv_Read (r rd))\<rparr>))"

text \<open>The reader \<open>main\<close> builds over an input whose records are \<open>rs\<close>.\<close>

definition NewReader :: "record_result list \<Rightarrow> csvReader" where
  "NewReader rs =
     \<lparr>hasPeeked = False, row = [], err = None, r = \<lparr>results = rs, calls = 0\<rparr>, line = 0\<rparr>"

section \<open>The schema builder\<close>

text \<open>
  The header loop leaves in one of three ways: it returns the columns built so far
  when \<open>Peek\<close> fails, it returns an error, or it breaks at the row of column names.
\<close>

datatype header_exit =
    HReturn "column list option"
  | HError error
  | HBreak "column list" "string list option"

text \<open>
  The first row allocates the columns (\<open>cols == nil\<close>); every later row must have as
  many fields. \<open>ln\<close> is \<open>r.line\<close> after the row has been read.
\<close>

definition headerCols :: "nat \<Rightarrow> column list option \<Rightarrow> string list \<Rightarrow> error + column list" where
  "headerCols ln cols rw =
     (case cols of
        None \<Rightarrow>
          if length rw = 0 then Inl (NoColumns ln)
          else Inr (replicate (length rw) column0)
      | Some cs \<Rightarrow>
          if length rw \<noteq> length cs then Inl (InconsistentHeader (length rw) (length cs))
          else Inr cs)"

definition setNames :: "column list \<Rightarrow> string list \<Rightarrow> column list" where
  "setNames cs rw = fold (\<lambda>i cs. cs[i := (cs ! i)\<lparr>Name := rw ! i\<rparr>]) [0..<length rw] cs"

definition setTypes :: "column list \<Rightarrow> string list \<Rightarrow> column list" where
  "setTypes cs rw = fold (\<lambda>i cs. cs[i := (cs ! i)\<lparr>Type := rw ! i\<rparr>]) [1..<length rw] cs"

definition setGroups :: "column list \<Rightarrow> string list \<Rightarrow> column list" where
  "setGroups cs rw =
     fold (\<lambda>i cs. cs[i := (cs ! i)\<lparr>Group := (rw ! i = ''true'')\<rparr>]) [1..<length rw] cs"

text \<open>
  What bounds the loops: twice the results the \<open>csv.Reader\<close> has not returned yet,
  and one more for a peeked row that carries no error.
\<close>

definition remaining :: "csvReader \<Rightarrow> nat" where
  "remaining rd =
     2 * (length (results (r rd)) - calls (r rd)) +
     (if hasPeeked rd \<and> err rd = None then 1 else 0)"

lemma remaining_Read_Peek:
  "Peek rd = ((rw, None), rd1) \<Longrightarrow> remaining (snd (Read rd1)) < remaining rd"
  by (auto simp: Peek_def Read_def csv_Read_def csv_nth_def remaining_def split: if_splits)

text \<open>
  The message \<open>unknown column annotation %q\<close> that the last branch of the switch
  writes to the standard error stream is not part of the result and is left out.
\<close>

function readHeader_loop ::
  "csvReader \<Rightarrow> column list option \<Rightarrow> string list option \<Rightarrow> header_exit \<times> csvReader" where
  "readHeader_loop rd cols defaults =
     (case Peek rd of
        ((rw, Some e), rd1) \<Rightarrow> (HReturn cols, rd1)
      | ((rw, None), rd1) \<Rightarrow>
          (case headerCols (line (snd (Read rd1))) cols rw of
             Inl e \<Rightarrow> (HError e, snd (Read rd1))
           | Inr cs \<Rightarrow>
               if \<not> HasPrefix (rw ! 0) ''#'' then
                 (HBreak (setNames cs rw) defaults, snd (Read rd1))
               else if rw ! 0 = ''#datatype'' then
                 readHeader_loop (snd (Read rd1)) (Some (setTypes cs rw)) defaults
               else if rw ! 0 = ''#group'' then
                 readHeader_loop (snd (Read rd1)) (Some (setGroups cs rw)) defaults
               else if rw ! 0 = ''#default'' then
                 readHeader_loop (snd (Read rd1)) (Some cs) (Some rw)
               else
                 readHeader_loop (snd (Read rd1)) (Some cs) defaults))"
  by pat_completeness auto
termination
  by (relation "measure (\<lambda>(rd, cols, defaults). remaining rd)")
     (auto dest: remaining_Read_Peek [OF sym])

declare readHeader_loop.simps [simp del]

text \<open>The conversion of the deferred defaults, at the indexes \<open>is\<close> in turn.\<close>

fun convertDefaults ::
  "golib \<Rightarrow> string list \<Rightarrow> nat list \<Rightarrow> column list \<Rightarrow> error + column list" where
  "convertDefaults L ds [] cs = Inr cs"
| "convertDefaults L ds (i # is) cs =
     (if ds ! i = [] then convertDefaults L ds is cs
      else case convertToType L (ds ! i) (Type (cs ! i)) of
        Inl e \<Rightarrow> Inl (CannotConvertDefault (ds ! i) (Type (cs ! i)) e)
      | Inr x \<Rightarrow> convertDefaults L ds is (cs[i := (cs ! i)\<lparr>Default := Some x\<rparr>]))"

definition readHeader :: "golib \<Rightarrow> csvReader \<Rightarrow> (error + column list) \<times> csvReader" where
  "readHeader L rd =
     (case readHeader_loop rd None None of
        (HReturn cols, rd1) \<Rightarrow> (Inr (case cols of None \<Rightarrow> [] | Some cs \<Rightarrow> cs), rd1)
      | (HError e, rd1) \<Rightarrow> (Inl e, rd1)
      | (HBreak cs defaults, rd1) \<Rightarrow>
          (case defaults of
             None \<Rightarrow> (Inr cs, rd1)
           | Some ds \<Rightarrow> (convertDefaults L ds [1..<length ds] cs, rd1)))"

section \<open>The table decoder\<close>

text \<open>
  The fields of one row, each with its column (\<open>col := cols[i]\<close>; the row has as many
  fields as there are columns when this runs). \<open>ln\<close> is \<open>r.line\<close>.
\<close>

fun rowFields :: "golib \<Rightarrow> nat \<Rightarrow> (column \<times> string) list \<Rightarrow> row \<Rightarrow> error + row" where
  "rowFields L ln [] rowMap = Inr rowMap"
| "rowFields L ln ((col, v) # fs) rowMap =
     (if Default col \<noteq> None \<and> v = [] then
        rowFields L ln fs (rowMap(Name col \<mapsto> the (Default col)))
      else if v = [] \<and> Name col = [] then rowFields L ln fs rowMap
      else case convertToType L v (Type col) of
        Inl e \<Rightarrow> Inl (CannotParse v (Type col) ln)
      | Inr x \<Rightarrow> rowFields L ln fs (rowMap(Name col \<mapsto> x)))"

function readTableRows_loop ::
  "golib \<Rightarrow> csvReader \<Rightarrow> column list \<Rightarrow> row list \<Rightarrow> (row list \<times> error option) \<times> csvReader" where
  "readTableRows_loop L rd cols rows =
     (case Peek rd of
        ((rw, Some e), rd1) \<Rightarrow> ((rows, None), rd1)
      | ((rw, None), rd1) \<Rightarrow>
          if length rw > 0 \<and> HasPrefix (rw ! 0) ''#'' then ((rows, None), rd1)
          else if length rw \<noteq> length cols then
            ((rows, Some (InconsistentColumns (line (snd (Read rd1))))), snd (Read rd1))
          else
            (case rowFields L (line (snd (Read rd1))) (zip cols rw) Map.empty of
               Inl e \<Rightarrow> ((rows, Some e), snd (Read rd1))
             | Inr rowMap \<Rightarrow> readTableRows_loop L (snd (Read rd1)) cols (rows @ [rowMap])))"
  by pat_completeness auto
termination
  by (relation "measure (\<lambda>(L, rd, cols, rows). remaining rd)")
     (auto dest: remaining_Read_Peek [OF sym])

declare readTableRows_loop.simps [simp del]

definition readTableRows ::
  "golib \<Rightarrow> csvReader \<Rightarrow> column list \<Rightarrow> (row list \<times> error option) \<times> csvReader" where
  "readTableRows L rd cols = readTableRows_loop L rd cols []"

definition columnsMap :: "column list \<Rightarrow> (string \<rightharpoonup> column)" where
  "columnsMap cols =
     fold (\<lambda>i m. if Name (cols ! i) = [] \<and> Default (cols ! i) = None then m
                  else m(Name (cols ! i) \<mapsto> (cols ! i)\<lparr>Index := i\<rparr>))
       [0..<length cols] Map.empty"

definition readTable :: "golib \<Rightarrow> csvReader \<Rightarrow> (error + table) \<times> csvReader" where
  "readTable L rd =
     (case readHeader L rd of
        (Inl e, rd1) \<Rightarrow> (Inl e, rd1)
      | (Inr cols, rd1) \<Rightarrow>
          (case readTableRows L rd1 cols of
             ((rows, Some e), rd2) \<Rightarrow> (Inl e, rd2)
           | ((rows, None), rd2) \<Rightarrow> (Inr \<lparr>Columns = columnsMap cols, Rows = rows\<rparr>, rd2)))"

lemma Peek_Peek: "Peek (snd (Peek rd)) = (fst (Peek rd), snd (Peek rd))"
  by (simp add: Peek_def)

lemma remaining_Peek_le: "remaining (snd (Peek rd)) \<le> remaining rd"
  by (auto simp: Peek_def csv_Read_def csv_nth_def remaining_def)

lemma remaining_Read_le: "remaining (snd (Read rd)) \<le> remaining rd"
  by (auto simp: Read_def csv_Read_def csv_nth_def remaining_def)

lemma readHeader_loop_error:
  "Peek rd = ((rw, Some e), rd1) \<Longrightarrow> readHeader_loop rd cols ds = (HReturn cols, rd1)"
  by (simp add: readHeader_loop.simps)

text \<open>What an annotation row leaves of the columns and the deferred defaults.\<close>

definition headerStep ::
  "column list \<Rightarrow> string list \<Rightarrow> string list option \<Rightarrow> column list option \<times> string list option" where
  "headerStep cs rw d =
     (if rw ! 0 = ''#datatype'' then (Some (setTypes cs rw), d)
      else if rw ! 0 = ''#group'' then (Some (setGroups cs rw), d)
      else if rw ! 0 = ''#default'' then (Some cs, Some rw)
      else (Some cs, d))"

lemma readHeader_loop_step:
  "Peek rd = ((rw, None), rd1) \<Longrightarrow> Read rd1 = (x, rd2) \<Longrightarrow>
     readHeader_loop rd c d =
       (case headerCols (line rd2) c rw of
          Inl e \<Rightarrow> (HError e, rd2)
        | Inr cs \<Rightarrow>
            if \<not> HasPrefix (rw ! 0) ''#'' then (HBreak (setNames cs rw) d, rd2)
            else readHeader_loop rd2 (fst (headerStep cs rw d)) (snd (headerStep cs rw d)))"
  by (subst readHeader_loop.simps) (simp add: headerStep_def split: sum.splits)

lemma readTableRows_loop_error:
  "Peek rd = ((rw, Some e), rd1) \<Longrightarrow> readTableRows_loop L rd cols rows = ((rows, None), rd1)"
  by (simp add: readTableRows_loop.simps)

lemma remaining_readHeader_loop:
  "remaining (snd (readHeader_loop rd cols ds)) \<le> remaining rd"
proof (induction "remaining rd" arbitrary: rd cols ds rule: less_induct)
  case less
  obtain rw eo rd1 where P: "Peek rd = ((rw, eo), rd1)" by (metis prod.exhaust)
  show ?case
  proof (cases eo)
    case (Some e)
    with P show ?thesis using remaining_Peek_le [of rd]
      by (simp add: readHeader_loop.simps)
  next
    case None
    note lt = remaining_Read_Peek [OF P [unfolded None]]
    have IH: "remaining (snd (readHeader_loop (snd (Read rd1)) c d)) \<le> remaining rd" for c d
      using less.hyps [OF lt, of c d] lt by simp
    show ?thesis
      using P None lt IH
      by (subst readHeader_loop.simps) (auto split: sum.splits)
  qed
qed

lemma remaining_readHeader_loop_less:
  assumes "Peek rd = ((rw, None), rd1)"
  shows "remaining (snd (readHeader_loop rd cols ds)) < remaining rd"
proof -
  note lt = remaining_Read_Peek [OF assms]
  have IH: "remaining (snd (readHeader_loop (snd (Read rd1)) c d)) < remaining rd" for c d
    using remaining_readHeader_loop [of "snd (Read rd1)" c d] lt by simp
  show ?thesis
    using assms lt IH
    by (subst readHeader_loop.simps) (auto split: sum.splits)
qed

lemma remaining_readTableRows_loop:
  "remaining (snd (readTableRows_loop L rd cols rows)) \<le> remaining rd"
proof (induction "remaining rd" arbitrary: rd rows rule: less_induct)
  case less
  obtain rw eo rd1 where P: "Peek rd = ((rw, eo), rd1)" by (metis prod.exhaust)
  have le: "remaining rd1 \<le> remaining rd" using remaining_Peek_le [of rd] P by simp
  show ?case
  proof (cases eo)
    case (Some e)
    with P le show ?thesis
      by (simp add: readTableRows_loop.simps)
  next
    case None
    note lt = remaining_Read_Peek [OF P [unfolded None]]
    have IH: "remaining (snd (readTableRows_loop L (snd (Read rd1)) cols rs)) \<le> remaining rd" for rs
      using less.hyps [OF lt, of rs] lt by simp
    show ?thesis
      using P None lt IH le
      by (subst readTableRows_loop.simps) (auto split: sum.splits)
  qed
qed

lemma readTable_progress:
  assumes "readTable L rd = (Inr t, rd1)" and "Peek rd1 = ((rw, None), rd2)"
  shows "remaining rd2 < remaining rd"
proof -
  obtain rw0 eo rd0 where P: "Peek rd = ((rw0, eo), rd0)" by (metis prod.exhaust)
  show ?thesis
  proof (cases eo)
    case (Some e)
    have PP: "Peek rd0 = ((rw0, Some e), rd0)"
      using Peek_Peek [of rd] P Some by simp
    have "readTable L rd = (Inr \<lparr>Columns = columnsMap [], Rows = []\<rparr>, rd0)"
      using P Some PP
      by (simp add: readTable_def readHeader_def readTableRows_def
          readHeader_loop_error [OF P [unfolded Some]] readTableRows_loop_error [OF PP])
    with assms PP show ?thesis by simp
  next
    case None
    obtain res rdh where H: "readHeader L rd = (res, rdh)" by (metis prod.exhaust)
    have "rdh = snd (readHeader_loop rd None None)"
      using H by (auto simp: readHeader_def split: prod.splits header_exit.splits option.splits)
    then have 1: "remaining rdh < remaining rd"
      using remaining_readHeader_loop_less [OF P [unfolded None]] by simp
    obtain cols where res: "res = Inr cols"
      using assms(1) H by (cases res) (auto simp: readTable_def)
    have "rd1 = snd (readTableRows_loop L rdh cols [])"
      using assms(1) H res
      by (auto simp: readTable_def readTableRows_def split: prod.splits option.splits)
    then have 2: "remaining rd1 \<le> remaining rdh"
      using remaining_readTableRows_loop by simp
    have 3: "remaining rd2 \<le> remaining rd1"
      using remaining_Peek_le [of rd1] assms(2) by simp
    from 1 2 3 show ?thesis by simp
  qed
qed

section \<open>The stream decoder\<close>

function readAll_loop ::
  "golib \<Rightarrow> csvReader \<Rightarrow> table list \<Rightarrow> (table list \<times> error option) \<times> csvReader" where
  "readAll_loop L rd tables =
     (case readTable L rd of
        (Inl e, rd1) \<Rightarrow> ((tables, Some e), rd1)
      | (Inr t, rd1) \<Rightarrow>
          (case Peek rd1 of
             ((rw, Some e), rd2) \<Rightarrow>
               if e = EOF then ((tables @ [t], None), rd2) else (([], Some e), rd2)
           | ((rw, None), rd2) \<Rightarrow> readAll_loop L rd2 (tables @ [t])))"
  by pat_completeness auto
termination
  by (relation "measure (\<lambda>(L, rd, tables). remaining rd)")
     (auto dest: readTable_progress [OF sym sym])

declare readAll_loop.simps [simp del]

definition readAll :: "golib \<Rightarrow> csvReader \<Rightarrow> (table list \<times> error option) \<times> csvReader" where
  "readAll L rd = readAll_loop L rd []"

section \<open>The line-protocol encoder\<close>

text \<open>
  A \<open>strings.Replacer\<close> whose old strings are single bytes replaces each byte of
  its argument on its own; the first pair with a given byte wins.
\<close>

type_synonym Replacer = "(char \<times> string) list"

definition Replace :: "Replacer \<Rightarrow> string \<Rightarrow> string" where
  "Replace rp s = concat (map (\<lambda>c. case map_of rp c of None \<Rightarrow> [c] | Some n \<Rightarrow> n) s)"

definition backslash :: char where
  "backslash = CHR 0x5C"

definition tagNameEscaper :: Replacer where
  "tagNameEscaper =
     [(CHR 0x09, [backslash, CHR ''t'']),
      (CHR 0x0A, [backslash, CHR ''n'']),
      (CHR 0x0C, [backslash, CHR ''f'']),
      (CHR 0x0D, [backslash, CHR ''r'']),
      (CHR '','', [backslash, CHR '','']),
      (CHR '' '', [backslash, CHR '' '']),
      (CHR ''='', [backslash, CHR ''=''])]"

definition tagValueEscaper :: Replacer where
  "tagValueEscaper = tagNameEscaper"

definition fieldNameEscaper :: Replacer where
  "fieldNameEscaper = tagNameEscaper"

definition stringFieldEscaper :: Replacer where
  "stringFieldEscaper =
     [(CHR 0x22, [backslash, CHR 0x22]),
      (backslash, [backslash, backslash])]"

definition measurementEscaper :: Replacer where
  "measurementEscaper =
     [(CHR 0x09, [backslash, CHR ''t'']),
      (CHR 0x0A, [backslash, CHR ''n'']),
      (CHR 0x0C, [backslash, CHR ''f'']),
      (CHR 0x0D, [backslash, CHR ''r'']),
      (CHR '','', [backslash, CHR '','']),
      (CHR '' '', [backslash, CHR '' ''])]"

text \<open>What \<open>%d\<close> prints.\<close>

definition digitChar :: "nat \<Rightarrow> char" where
  "digitChar d = ''0123456789'' ! d"

fun showNat :: "nat \<Rightarrow> string" where
  "showNat n =
     (if n < 10 then [digitChar n]
      else showNat (n div 10) @ [digitChar (n mod 10)])"

declare showNat.simps [simp del]

definition showInt :: "int \<Rightarrow> string" where
  "showInt i = (if i < 0 then CHR ''-'' # showNat (nat (- i)) else showNat (nat i))"

text \<open>\<open>Time.UnixNano\<close>, in \<open>int64\<close> arithmetic.\<close>

definition UnixNano :: "Time \<Rightarrow> int64" where
  "UnixNano t = unixSec t * 1000000000 + scast (nsec t)"

definition escapeValue :: "golib \<Rightarrow> val \<Rightarrow> Replacer \<Rightarrow> error + string" where
  "escapeValue L v escaper =
     (case v of
        VInt x \<Rightarrow> Inr (showInt (sint x) @ ''i'')
      | VUint x \<Rightarrow> Inr (showNat (unat x) @ ''u'')
      | VFloat x \<Rightarrow> Inr (SprintFloat L x)
      | VBool x \<Rightarrow> Inr (if x then ''true'' else ''false'')
      | VString x \<Rightarrow> Inr (Replace escaper x)
      | VTime x \<Rightarrow> Inr (showInt (sint (UnixNano x)) @ ''i'')
      | VOther T \<Rightarrow> Inl (PanicUnexpectedValueType T))"

record tableInfo =
  measurement :: int
  field :: int
  valueIdx :: int
  timeIdx :: int
  tagNames :: "string list"
  tagIndexes :: "nat list"

text \<open>
  The loop over the columns, \<open>i\<close> being the index of the first of \<open>cols\<close>. The
  fields \<open>value\<close> and \<open>time\<close> of the source's \<open>tableInfo\<close> are \<open>valueIdx\<close> and
  \<open>timeIdx\<close> here.
\<close>

fun tableInfo_loop :: "nat \<Rightarrow> column list \<Rightarrow> tableInfo \<Rightarrow> error + tableInfo" where
  "tableInfo_loop i [] info = Inr info"
| "tableInfo_loop i (col # cols) info =
     (if Name col = ''_measurement'' then
        (if Type col \<noteq> ''string'' then
           Inl (ColumnWrongType ''_measurement'' (Type col) ''string'')
         else tableInfo_loop (i + 1) cols (info\<lparr>measurement := int i\<rparr>))
      else if Name col = ''_field'' then
        (if Type col \<noteq> ''string'' then
           Inl (ColumnWrongType ''_field'' (Type col) ''string'')
         else tableInfo_loop (i + 1) cols (info\<lparr>field := int i\<rparr>))
      else if Name col = ''_value'' then
        tableInfo_loop (i + 1) cols (info\<lparr>valueIdx := int i\<rparr>)
      else if Name col = ''_time'' then
        (if \<not> HasPrefix (Type col) ''dateTime:'' then
           Inl (ColumnWrongType ''_time'' (Type col) ''dateTime:*'')
         else tableInfo_loop (i + 1) cols (info\<lparr>timeIdx := int i\<rparr>))
      else if Name col = [] then tableInfo_loop (i + 1) cols info
      else
        tableInfo_loop (i + 1) cols
          (info\<lparr>tagNames := tagNames info @ [TrimPrefix (Name col) ''_''],
                tagIndexes := tagIndexes info @ [i]\<rparr>))"

definition tableInfoForColumns :: "column list \<Rightarrow> error + tableInfo" where
  "tableInfoForColumns cols =
     (case tableInfo_loop 0 cols
             \<lparr>measurement = - 1, field = - 1, valueIdx = - 1, timeIdx = - 1,
              tagNames = [], tagIndexes = []\<rparr> of
        Inl e \<Rightarrow> Inl e
      | Inr info \<Rightarrow>
          if measurement info = - 1 then Inl (NoColumnFound ''_measurement'')
          else if field info = - 1 then Inl (NoColumnFound ''_field'')
          else if valueIdx info = - 1 then Inl (NoColumnFound ''_value'')
          else if timeIdx info = - 1 then Inl (NoColumnFound ''_time'')
          else Inr info)"

text \<open>Sequencing of steps that can fail: the first failure is the result.\<close>

definition andThen :: "error + 'a \<Rightarrow> ('a \<Rightarrow> error + 'b) \<Rightarrow> error + 'b" where
  "andThen x f = (case x of Inl e \<Rightarrow> Inl e | Inr a \<Rightarrow> f a)"

text \<open>\<open>row[i]\<close>, which panics out of range.\<close>

definition index :: "val list \<Rightarrow> int \<Rightarrow> error + val" where
  "index rw i =
     (if 0 \<le> i \<and> nat i < length rw then Inr (rw ! nat i)
      else Inl (PanicIndexOutOfRange i (length rw)))"

text \<open>The tags of a line, appended to the line \<open>ln\<close>.\<close>

fun writeTags :: "golib \<Rightarrow> val list \<Rightarrow> (string \<times> nat) list \<Rightarrow> string \<Rightarrow> error + string" where
  "writeTags L rw [] ln = Inr ln"
| "writeTags L rw ((tagName, ix) # ts) ln =
     andThen (escapeValue L (VString tagName) tagNameEscaper) (\<lambda>k.
     andThen (index rw (int ix)) (\<lambda>v.
     andThen (escapeValue L v tagValueEscaper) (\<lambda>s.
     writeTags L rw ts (ln @ '','' @ k @ ''='' @ s))))"

text \<open>The switch on the dynamic type of \<open>row[info.value]\<close>.\<close>

definition fieldValue :: "golib \<Rightarrow> val \<Rightarrow> error + string" where
  "fieldValue L v =
     (case v of
        VInt x \<Rightarrow> Inr (showInt (sint x) @ ''i'')
      | VUint x \<Rightarrow> Inr (showNat (unat x) @ ''u'')
      | VFloat x \<Rightarrow> Inr (SprintFloat L x)
      | VString x \<Rightarrow>
          andThen (escapeValue L (VString x) stringFieldEscaper) (\<lambda>s.
          Inr ([CHR 0x22] @ s @ [CHR 0x22]))
      | VBool x \<Rightarrow> Inr (if x then ''true'' else ''false'')
      | VTime x \<Rightarrow> Inr (showInt (sint (UnixNano x)))
      | VOther T \<Rightarrow> Inl (UnexpectedValueTypeInValue T))"

text \<open>The type assertion \<open>row[info.time].(time.Time)\<close>.\<close>

definition asTime :: "val \<Rightarrow> error + Time" where
  "asTime v =
     (case v of
        VTime t \<Rightarrow> Inr t
      | VInt x \<Rightarrow> Inl (PanicTypeAssertion ''int64'')
      | VUint x \<Rightarrow> Inl (PanicTypeAssertion ''uint64'')
      | VFloat x \<Rightarrow> Inl (PanicTypeAssertion ''float64'')
      | VBool x \<Rightarrow> Inl (PanicTypeAssertion ''bool'')
      | VString x \<Rightarrow> Inl (PanicTypeAssertion ''string'')
      | VOther T \<Rightarrow> Inl (PanicTypeAssertion T))"

text \<open>The line of one row: the body of the loop over the rows.\<close>

definition writeRow :: "golib \<Rightarrow> tableInfo \<Rightarrow> val list \<Rightarrow> error + string" where
  "writeRow L info rw =
     andThen (index rw (measurement info)) (\<lambda>m.
     andThen (escapeValue L m measurementEscaper) (\<lambda>ms.
     andThen (writeTags L rw (zip (tagNames info) (tagIndexes info)) ms) (\<lambda>l1.
     andThen (index rw (field info)) (\<lambda>f.
     andThen (escapeValue L f fieldNameEscaper) (\<lambda>fs.
     andThen (index rw (valueIdx info)) (\<lambda>v.
     andThen (fieldValue L v) (\<lambda>vs.
     andThen (index rw (timeIdx info)) (\<lambda>t.
     andThen (asTime t) (\<lambda>tm.
     Inr (l1 @ '' '' @ fs @ ''='' @ vs @ '' '' @
          showInt (sint (UnixNano tm)) @ [CHR 0x0A]))))))))))"

text \<open>
  The rows of one table, appended to the output \<open>out\<close>. What was written before an
  error stays written: the deferred \<open>Flush\<close> runs on every way out.
\<close>

fun writeRows :: "golib \<Rightarrow> tableInfo \<Rightarrow> val list list \<Rightarrow> string \<Rightarrow> string \<times> error option" where
  "writeRows L info [] out = (out, None)"
| "writeRows L info (rw # rws) out =
     (case writeRow L info rw of
        Inl e \<Rightarrow> (out, Some e)
      | Inr ln \<Rightarrow> writeRows L info rws (out @ ln))"

text \<open>
  The \<open>annotatedcsv.Reader\<close> that \<open>writeLineProtocol\<close> reads is taken as the tables
  it yields: for each \<open>NextTable\<close> the columns of \<open>Columns\<close> and, for each
  \<open>NextRow\<close>, the values of \<open>Row\<close>.
\<close>

fun writeTables ::
  "golib \<Rightarrow> (column list \<times> val list list) list \<Rightarrow> string \<Rightarrow> string \<times> error option" where
  "writeTables L [] out = (out, None)"
| "writeTables L ((cols, rws) # ts) out =
     (case tableInfoForColumns cols of
        Inl e \<Rightarrow> (out, Some (CannotGetTableInfo e))
      | Inr info \<Rightarrow>
          (case writeRows L info rws out of
             (out1, Some e) \<Rightarrow> (out1, Some e)
           | (out1, None) \<Rightarrow> writeTables L ts out1))"

definition writeLineProtocol ::
  "golib \<Rightarrow> (column list \<times> val list list) list \<Rightarrow> string \<times> error option" where
  "writeLineProtocol L tables = writeTables L tables []"

section \<open>Properties of the peekable row source\<close>

text \<open>A sequence of calls of \<open>Peek\<close> and \<open>Read\<close> on a reader.\<close>

datatype rop = DoPeek | DoRead

fun step :: "rop \<Rightarrow> csvReader \<Rightarrow> csvReader" where
  "step DoPeek rd = snd (Peek rd)"
| "step DoRead rd = snd (Read rd)"

definition run :: "rop list \<Rightarrow> csvReader \<Rightarrow> csvReader" where
  "run ops rd = fold step ops rd"

lemma step_line_calls:
  "line (step x rd) + calls (r rd) = line rd + calls (r (step x rd))"
  by (cases x) (simp_all add: Peek_def Read_def csv_Read_def)

lemma run_line_calls:
  "line (run ops rd) + calls (r rd) = line rd + calls (r (run ops rd))"
  unfolding run_def
proof (induction ops arbitrary: rd)
  case Nil
  show ?case by simp
next
  case (Cons x xs)
  show ?case
    using Cons.IH [of "step x rd"] step_line_calls [of x rd] by simp
qed

lemma step_calls_count:
  "calls (r (step x rd)) + (if hasPeeked rd then 1 else 0) =
   calls (r rd) + (if x = DoRead then 1 else 0) + (if hasPeeked (step x rd) then 1 else 0)"
  by (cases x) (simp_all add: Peek_def Read_def csv_Read_def)

lemma run_calls_count:
  "calls (r (run ops rd)) + (if hasPeeked rd then 1 else 0) =
   calls (r rd) + length (filter (\<lambda>x. x = DoRead) ops) + (if hasPeeked (run ops rd) then 1 else 0)"
  unfolding run_def
proof (induction ops arbitrary: rd)
  case Nil
  show ?case by simp
next
  case (Cons x xs)
  show ?case
    using Cons.IH [of "step x rd"] step_calls_count [of x rd] by (simp split: if_splits)
qed

lemma Peek_funpow: "((\<lambda>s. snd (Peek s)) ^^ Suc n) rd = snd (Peek rd)"
proof (induction n)
  case 0
  show ?case by simp
next
  case (Suc n)
  then show ?case using Peek_Peek [of rd] by simp
qed

text \<open>
  C6: \<open>Peek\<close> is idempotent. A second \<open>Peek\<close>, and a \<open>Peek\<close> after any number of
  them, returns the same row and the same error and leaves the reader as the first left
  it, so the input does not advance. \<open>Read\<close> after a \<open>Peek\<close> returns the peeked
  row and error. A row reached by \<open>Peek\<close> then \<open>Read\<close> leaves the \<open>csv.Reader\<close> and
  the line counter where a row reached by \<open>Read\<close> alone leaves them, and after any
  sequence of calls on a new reader the line counter is the number of rows taken from
  the \<open>csv.Reader\<close>: the rows read, and one more if a row is peeked.
\<close>

theorem Peek_idempotent_line_once:
  "Peek (snd (Peek rd)) = (fst (Peek rd), snd (Peek rd))
   \<and> Peek (((\<lambda>s. snd (Peek s)) ^^ Suc n) rd) = (fst (Peek rd), snd (Peek rd))
   \<and> Read (snd (Peek rd)) = (fst (Peek rd), (snd (Peek rd))\<lparr>hasPeeked := False\<rparr>)
   \<and> r (snd (Read (snd (Peek rd)))) = r (snd (Read rd))
   \<and> line (snd (Read (snd (Peek rd)))) = line (snd (Read rd))
   \<and> line (snd (Read rd)) = line rd + (if hasPeeked rd then 0 else 1)
   \<and> line (run ops (NewReader rs)) = calls (r (run ops (NewReader rs)))
   \<and> line (run ops (NewReader rs)) =
       length (filter (\<lambda>x. x = DoRead) ops) + (if hasPeeked (run ops (NewReader rs)) then 1 else 0)"
proof -
  have 1: "Peek (snd (Peek rd)) = (fst (Peek rd), snd (Peek rd))"
    by (rule Peek_Peek)
  have 2: "Peek (((\<lambda>s. snd (Peek s)) ^^ Suc n) rd) = (fst (Peek rd), snd (Peek rd))"
    unfolding Peek_funpow by (rule Peek_Peek)
  have 3: "Read (snd (Peek rd)) = (fst (Peek rd), (snd (Peek rd))\<lparr>hasPeeked := False\<rparr>)"
    by (simp add: Peek_def Read_def)
  have 4: "r (snd (Read (snd (Peek rd)))) = r (snd (Read rd))"
    by (simp add: Peek_def Read_def)
  have 5: "line (snd (Read (snd (Peek rd)))) = line (snd (Read rd))"
    by (simp add: Peek_def Read_def)
  have 6: "line (snd (Read rd)) = line rd + (if hasPeeked rd then 0 else 1)"
    by (simp add: Read_def)
  have 7: "line (run ops (NewReader rs)) = calls (r (run ops (NewReader rs)))"
    using run_line_calls [of ops "NewReader rs"] by (simp add: NewReader_def)
  have 8: "line (run ops (NewReader rs)) =
       length (filter (\<lambda>x. x = DoRead) ops) + (if hasPeeked (run ops (NewReader rs)) then 1 else 0)"
    using run_calls_count [of ops "NewReader rs"] 7 by (simp add: NewReader_def)
  from 1 2 3 4 5 6 7 8 show ?thesis by blast
qed

section \<open>The line counter and the input\<close>

text \<open>
  The index (from 0) of the record the next \<open>Peek\<close> or \<open>Read\<close> delivers, and the
  invariant of the reader: the line counter is the number of calls made to the
  \<open>csv.Reader\<close>, and a peeked row is what the last call returned.
\<close>

definition nextIdx :: "csvReader \<Rightarrow> nat" where
  "nextIdx rd = (if hasPeeked rd then calls (r rd) - 1 else calls (r rd))"

definition synced :: "csvReader \<Rightarrow> bool" where
  "synced rd =
     (line rd = calls (r rd) \<and>
      (if hasPeeked rd
       then 1 \<le> calls (r rd) \<and> (row rd, err rd) = csv_nth (results (r rd)) (calls (r rd) - 1)
       else True))"

lemma synced_NewReader: "synced (NewReader rs)" "nextIdx (NewReader rs) = 0"
  "results (r (NewReader rs)) = rs"
  by (simp_all add: synced_def nextIdx_def NewReader_def)

lemma Peek_synced:
  assumes "synced rd"
  shows "fst (Peek rd) = csv_nth (results (r rd)) (nextIdx rd)"
    and "synced (snd (Peek rd))"
    and "hasPeeked (snd (Peek rd))"
    and "nextIdx (snd (Peek rd)) = nextIdx rd"
    and "line (snd (Peek rd)) = nextIdx rd + 1"
    and "results (r (snd (Peek rd))) = results (r rd)"
  using assms
  by (auto simp: synced_def nextIdx_def Peek_def csv_Read_def split: if_splits)

lemma Read_Peek_synced:
  assumes "synced rd"
  shows "synced (snd (Read (snd (Peek rd))))"
    and "\<not> hasPeeked (snd (Read (snd (Peek rd))))"
    and "nextIdx (snd (Read (snd (Peek rd)))) = nextIdx rd + 1"
    and "line (snd (Read (snd (Peek rd)))) = nextIdx rd + 1"
    and "results (r (snd (Read (snd (Peek rd))))) = results (r rd)"
  using assms
  by (auto simp: synced_def nextIdx_def Peek_def Read_def csv_Read_def split: if_splits)

text \<open>One turn of a loop over a reader that satisfies the invariant.\<close>

lemma synced_turn:
  assumes "synced rd"
  obtains rw eo rd1 rd2 where
    "csv_nth (results (r rd)) (nextIdx rd) = (rw, eo)"
    "Peek rd = ((rw, eo), rd1)" "Read rd1 = ((rw, eo), rd2)"
    "Peek rd1 = ((rw, eo), rd1)"
    "synced rd1" "hasPeeked rd1" "nextIdx rd1 = nextIdx rd" "line rd1 = nextIdx rd + 1"
    "results (r rd1) = results (r rd)"
    "synced rd2" "\<not> hasPeeked rd2" "nextIdx rd2 = nextIdx rd + 1" "line rd2 = nextIdx rd + 1"
    "results (r rd2) = results (r rd)"
proof -
  obtain rw eo where nth: "csv_nth (results (r rd)) (nextIdx rd) = (rw, eo)" by force
  define rd1 where "rd1 = snd (Peek rd)"
  define rd2 where "rd2 = snd (Read rd1)"
  have f: "fst (Peek rd) = (rw, eo)"
    using Peek_synced(1) [OF assms] nth by simp
  have P: "Peek rd = ((rw, eo), rd1)"
    unfolding rd1_def f [symmetric] by simp
  have PP: "Peek rd1 = ((rw, eo), rd1)"
    unfolding rd1_def f [symmetric] by (rule Peek_Peek)
  have "fst (Read (snd (Peek rd))) = fst (Peek rd)"
    by (simp add: Peek_def Read_def)
  then have R: "Read rd1 = ((rw, eo), rd2)"
    unfolding rd2_def rd1_def f [symmetric] by (simp add: prod_eq_iff)
  show ?thesis
    using that [OF nth P R PP] Peek_synced [OF assms] Read_Peek_synced [OF assms]
    unfolding rd1_def [symmetric] rd2_def [symmetric] by blast
qed

lemma readHeader_loop_synced:
  "synced rd \<Longrightarrow>
     synced (snd (readHeader_loop rd c d))
     \<and> results (r (snd (readHeader_loop rd c d))) = results (r rd)"
proof (induction "remaining rd" arbitrary: rd c d rule: less_induct)
  case less
  from less.prems obtain rw eo rd1 rd2 where
    P: "Peek rd = ((rw, eo), rd1)" and R: "Read rd1 = ((rw, eo), rd2)"
    and S1: "synced rd1" "results (r rd1) = results (r rd)"
    and S2: "synced rd2" "results (r rd2) = results (r rd)"
    by (rule synced_turn)
  show ?case
  proof (cases eo)
    case (Some e)
    with P S1 show ?thesis
      by (simp add: readHeader_loop_error)
  next
    case None
    have lt: "remaining rd2 < remaining rd"
      using remaining_Read_Peek [OF P [unfolded None]] R by simp
    have IH: "synced (snd (readHeader_loop rd2 c' d'))
       \<and> results (r (snd (readHeader_loop rd2 c' d'))) = results (r rd)" for c' d'
      using less.hyps [OF lt S2(1), of c' d'] S2(2) by simp
    show ?thesis
      apply (subst (1 2) readHeader_loop.simps)
      apply (simp add: P R None S2 IH split: sum.splits)
      done
  qed
qed








lemma convertDefaults_error:
  "convertDefaults L ds is cs = Inl e \<Longrightarrow>
     \<exists>v t e'. e = CannotConvertDefault v t e' \<and> convertToType L v t = Inl e'"
proof (induction "is" arbitrary: cs)
  case Nil
  then show ?case by simp
next
  case (Cons i "is")
  show ?case
  proof (cases "ds ! i = []")
    case True
    with Cons.prems Cons.IH show ?thesis by simp
  next
    case False
    show ?thesis
    proof (cases "convertToType L (ds ! i) (Type (cs ! i))")
      case (Inl e')
      with Cons.prems False show ?thesis by auto
    next
      case (Inr x)
      with Cons.prems False Cons.IH show ?thesis by simp
    qed
  qed
qed



lemma snd_readHeader: "snd (readHeader L rd) = snd (readHeader_loop rd None None)"
  by (simp add: readHeader_def split: prod.splits header_exit.splits option.splits)

lemma readHeader_synced:
  "synced rd \<Longrightarrow>
     synced (snd (readHeader L rd)) \<and> results (r (snd (readHeader L rd))) = results (r rd)"
  unfolding snd_readHeader by (rule readHeader_loop_synced)



text \<open>A row that starts the annotations of a table.\<close>

definition isAnnotation :: "string list \<Rightarrow> bool" where
  "isAnnotation rw = (length rw > 0 \<and> HasPrefix (rw ! 0) ''#'')"

lemma readTableRows_loop_annotation:
  "Peek rd = ((rw, None), rd1) \<Longrightarrow> isAnnotation rw \<Longrightarrow>
     readTableRows_loop L rd cols rows = ((rows, None), rd1)"
  by (subst readTableRows_loop.simps) (auto simp: isAnnotation_def)

lemma readTableRows_loop_count:
  "Peek rd = ((rw, None), rd1) \<Longrightarrow> \<not> isAnnotation rw \<Longrightarrow> length rw \<noteq> length cols \<Longrightarrow>
     readTableRows_loop L rd cols rows =
       ((rows, Some (InconsistentColumns (line (snd (Read rd1))))), snd (Read rd1))"
  by (subst readTableRows_loop.simps) (auto simp: isAnnotation_def)

lemma readTableRows_loop_fields_error:
  "Peek rd = ((rw, None), rd1) \<Longrightarrow> \<not> isAnnotation rw \<Longrightarrow> length rw = length cols \<Longrightarrow>
   rowFields L (line (snd (Read rd1))) (zip cols rw) Map.empty = Inl e \<Longrightarrow>
     readTableRows_loop L rd cols rows = ((rows, Some e), snd (Read rd1))"
  by (subst readTableRows_loop.simps) (auto simp: isAnnotation_def)

lemma readTableRows_loop_next:
  "Peek rd = ((rw, None), rd1) \<Longrightarrow> \<not> isAnnotation rw \<Longrightarrow> length rw = length cols \<Longrightarrow>
   rowFields L (line (snd (Read rd1))) (zip cols rw) Map.empty = Inr m \<Longrightarrow>
     readTableRows_loop L rd cols rows = readTableRows_loop L (snd (Read rd1)) cols (rows @ [m])"
  by (subst readTableRows_loop.simps) (auto simp: isAnnotation_def)

text \<open>The four ways a turn of the row loop can go.\<close>

lemma readTableRows_loop_cases:
  assumes "Peek rd = ((rw, eo), rd1)"
  obtains
    (stop) "eo \<noteq> None \<or> isAnnotation rw"
      "readTableRows_loop L rd cols rows = ((rows, None), rd1)"
  | (count) "eo = None" "\<not> isAnnotation rw" "length rw \<noteq> length cols"
      "readTableRows_loop L rd cols rows =
         ((rows, Some (InconsistentColumns (line (snd (Read rd1))))), snd (Read rd1))"
  | (field) e where "eo = None" "\<not> isAnnotation rw" "length rw = length cols"
      "rowFields L (line (snd (Read rd1))) (zip cols rw) Map.empty = Inl e"
      "readTableRows_loop L rd cols rows = ((rows, Some e), snd (Read rd1))"
  | (more) m where "eo = None" "\<not> isAnnotation rw" "length rw = length cols"
      "rowFields L (line (snd (Read rd1))) (zip cols rw) Map.empty = Inr m"
      "readTableRows_loop L rd cols rows =
         readTableRows_loop L (snd (Read rd1)) cols (rows @ [m])"
proof (cases eo)
  case (Some e)
  with assms stop show ?thesis
    by (simp add: readTableRows_loop_error)
next
  case None
  note P = assms [unfolded None]
  show ?thesis
  proof (cases "isAnnotation rw")
    case True
    with stop readTableRows_loop_annotation [OF P] show ?thesis by blast
  next
    case na: False
    show ?thesis
    proof (cases "length rw = length cols")
      case False
      with count None na readTableRows_loop_count [OF P na] show ?thesis by blast
    next
      case True
      show ?thesis
      proof (cases "rowFields L (line (snd (Read rd1))) (zip cols rw) Map.empty")
        case (Inl e)
        from field [OF None na True Inl readTableRows_loop_fields_error [OF P na True Inl]]
        show ?thesis .
      next
        case (Inr m)
        from more [OF None na True Inr readTableRows_loop_next [OF P na True Inr]]
        show ?thesis .
      qed
    qed
  qed
qed

lemma readTableRows_loop_synced:
  "synced rd \<Longrightarrow>
     synced (snd (readTableRows_loop L rd cols rows))
     \<and> results (r (snd (readTableRows_loop L rd cols rows))) = results (r rd)"
proof (induction "remaining rd" arbitrary: rd rows rule: less_induct)
  case less
  from less.prems obtain rw eo rd1 rd2 where
    P: "Peek rd = ((rw, eo), rd1)" and R: "Read rd1 = ((rw, eo), rd2)"
    and S1: "synced rd1" "results (r rd1) = results (r rd)"
    and S2: "synced rd2" "results (r rd2) = results (r rd)"
    by (rule synced_turn)
  from P show ?case
  proof (cases rule: readTableRows_loop_cases [where L = L and cols = cols and rows = rows])
    case stop
    with S1 show ?thesis by simp
  next
    case count
    with S2 R show ?thesis by simp
  next
    case (field e)
    with S2 R show ?thesis by simp
  next
    case (more m)
    have lt: "remaining rd2 < remaining rd"
      using remaining_Read_Peek [OF P [unfolded more(1)]] R by simp
    from less.hyps [OF lt S2(1), of "rows @ [m]"] more(5) R S2(2)
    show ?thesis by simp
  qed
qed


section \<open>Properties of the value converter\<close>

text \<open>
  A library for closed instances: its float parser knows the texts \<open>1.5\<close> and
  \<open>Inf\<close> and rejects every other, its time parser knows \<open>2023-01-01T00:00:00Z\<close>,
  and it prints the float 1.5 as \<open>1.5\<close>.
\<close>

definition sampleLib :: golib where
  "sampleLib =
     \<lparr>ParseFloat = (\<lambda>s. if s = ''1.5'' then Inr 0x3FF8000000000000
                         else if s = ''Inf'' then Inr 0x7FF0000000000000
                         else Inl (NumError ''ParseFloat'' s ErrSyntax)),
      timeParse = (\<lambda>layout s. if s = ''2023-01-01T00:00:00Z''
                         then Inr \<lparr>unixSec = 1672531200, nsec = 0\<rparr>
                         else Inl (LibError ''parsing time'')),
      SprintFloat = (\<lambda>x. if x = 0x3FF8000000000000 then ''1.5'' else ''?'')\<rparr>"

lemma convertToType_double_eq:
  "convertToType L s ''double'' =
     (case ParseFloat L s of
        Inl e \<Rightarrow> Inl e
      | Inr x \<Rightarrow> if IsInf x \<or> IsNaN x then Inr (VString s) else Inr (VFloat x))"
  by (simp add: convertToType_def)

text \<open>
  C4: converting a text with declared type \<open>double\<close> returns an error exactly when
  the float parse fails, and then it is the error of the parse; a parsed float that is
  infinite or NaN gives the original text as a string, any other parsed float gives
  the float; no float the converter returns is infinite or NaN.
\<close>

theorem convertToType_double:
  "(\<forall>e. convertToType L s ''double'' = Inl e \<longleftrightarrow> ParseFloat L s = Inl e)
   \<and> (\<forall>x. ParseFloat L s = Inr x \<and> (IsInf x \<or> IsNaN x)
          \<longrightarrow> convertToType L s ''double'' = Inr (VString s))
   \<and> (\<forall>x. ParseFloat L s = Inr x \<and> \<not> IsInf x \<and> \<not> IsNaN x
          \<longrightarrow> convertToType L s ''double'' = Inr (VFloat x))
   \<and> (\<forall>x. convertToType L s ''double'' = Inr (VFloat x) \<longrightarrow> \<not> IsInf x \<and> \<not> IsNaN x)"
  by (cases "ParseFloat L s") (auto simp: convertToType_double_eq)

text \<open>An instance of each of the three outcomes.\<close>

theorem convertToType_double_witness:
  "convertToType sampleLib ''Inf'' ''double'' = Inr (VString ''Inf'')
   \<and> convertToType sampleLib ''1.5'' ''double'' = Inr (VFloat 0x3FF8000000000000)
   \<and> convertToType sampleLib ''x'' ''double'' = Inl (NumError ''ParseFloat'' ''x'' ErrSyntax)
   \<and> IsInf 0x7FF0000000000000 \<and> \<not> IsInf 0x3FF8000000000000 \<and> \<not> IsNaN 0x3FF8000000000000"
proof -
  have a: "ParseFloat sampleLib ''Inf'' = Inr 0x7FF0000000000000"
    and b: "ParseFloat sampleLib ''1.5'' = Inr 0x3FF8000000000000"
    and c: "ParseFloat sampleLib ''x'' = Inl (NumError ''ParseFloat'' ''x'' ErrSyntax)"
    by (simp_all add: sampleLib_def)
  have d: "IsInf 0x7FF0000000000000"
    and e: "\<not> IsInf 0x3FF8000000000000" and f: "\<not> IsNaN 0x3FF8000000000000"
    by (simp_all add: IsInf_def IsNaN_def)
  have 1: "convertToType sampleLib ''Inf'' ''double'' = Inr (VString ''Inf'')"
    using convertToType_double [of sampleLib "''Inf''"] a d by blast
  have 2: "convertToType sampleLib ''1.5'' ''double'' = Inr (VFloat 0x3FF8000000000000)"
    using convertToType_double [of sampleLib "''1.5''"] b e f by blast
  have 3: "convertToType sampleLib ''x'' ''double'' = Inl (NumError ''ParseFloat'' ''x'' ErrSyntax)"
    using convertToType_double [of sampleLib "''x''"] c by blast
  from 1 2 3 d e f show ?thesis by blast
qed

text \<open>The values of the six dynamic types the converter returns.\<close>

definition isKnown :: "val \<Rightarrow> bool" where
  "isKnown v = (case v of VOther T \<Rightarrow> False | _ \<Rightarrow> True)"

lemma convertToType_known:
  assumes "convertToType L s typ = Inr v"
  shows "isKnown v"
proof -
  consider (b) "typ = ''boolean''" | (l) "typ = ''long''" | (u) "typ = ''unsignedLong''"
    | (d) "typ = ''double''" | (s) "typ = ''string'' \<or> typ = ''tag'' \<or> typ = []"
    | (o) "typ \<noteq> ''boolean''" "typ \<noteq> ''long''" "typ \<noteq> ''unsignedLong''" "typ \<noteq> ''double''"
          "\<not> (typ = ''string'' \<or> typ = ''tag'' \<or> typ = [])"
    by blast
  then show ?thesis
  proof cases
    case b
    with assms show ?thesis
      by (cases "ParseBool s") (auto simp add: convertToType_def isKnown_def)
  next
    case l
    with assms show ?thesis
      by (cases "ParseInt s") (auto simp add: convertToType_def isKnown_def)
  next
    case u
    with assms show ?thesis
      by (cases "ParseUint s") (auto simp add: convertToType_def isKnown_def)
  next
    case d
    with assms show ?thesis
      by (cases "ParseFloat L s") (auto simp add: convertToType_def isKnown_def split: if_splits)
  next
    case s
    with assms show ?thesis
      by (auto simp add: convertToType_def isKnown_def)
  next
    case o
    with assms show ?thesis
      by (cases "timeParse L (timeFormats (TrimPrefix typ ''dateTime:'')) s")
         (auto simp add: convertToType_def isKnown_def Let_def split: if_splits)
  qed
qed

text \<open>
  C10: on every value the converter returns, whatever the text and the declared type,
  \<open>escapeValue\<close> returns a string and does not panic, with any escaper.
\<close>

theorem escapeValue_total_on_converted:
  "convertToType L s ty = Inr v \<Longrightarrow> \<exists>out. escapeValue L v escaper = Inr out"
  using convertToType_known [of L s ty v]
  by (cases v) (simp_all add: escapeValue_def isKnown_def)

text \<open>An instance: the text \<open>-12\<close> of type \<open>long\<close>.\<close>

theorem escapeValue_total_on_converted_witness:
  "convertToType sampleLib ''-12'' ''long'' = Inr (VInt (- 12))
   \<and> escapeValue sampleLib (VInt (- 12)) measurementEscaper = Inr ''-12i''"
proof -
  have a: "convertToType sampleLib ''-12'' ''long'' = Inr (VInt (- 12))"
    by (simp add: convertToType_def ParseInt_def parseUint10_def isDigit_def digitVal_def)
  from escapeValue_total_on_converted [OF a, of measurementEscaper]
  obtain out where "escapeValue sampleLib (VInt (- 12)) measurementEscaper = Inr out" ..
  moreover have "escapeValue sampleLib (VInt (- 12)) measurementEscaper = Inr ''-12i''"
    by (simp add: escapeValue_def showInt_def showNat.simps digitChar_def)
  ultimately show ?thesis using a by simp
qed

section \<open>Properties of the line-protocol encoder\<close>

text \<open>A column of a given name and declared type.\<close>

definition mkColumn :: "string \<Rightarrow> string \<Rightarrow> column" where
  "mkColumn n t = \<lparr>Index = 0, Name = n, Group = False, Default = None, Type = t\<rparr>"

text \<open>The columns that become tags: those the switch sends to its last branch.\<close>

definition isTag :: "column \<Rightarrow> bool" where
  "isTag c = (Name c \<notin> set [''_measurement'', ''_field'', ''_value'', ''_time'', []])"

definition typeOK :: "column \<Rightarrow> bool" where
  "typeOK c =
     ((Name c = ''_measurement'' \<longrightarrow> Type c = ''string'') \<and>
      (Name c = ''_field'' \<longrightarrow> Type c = ''string'') \<and>
      (Name c = ''_time'' \<longrightarrow> HasPrefix (Type c) ''dateTime:''))"

lemma tableInfo_loop_typeOK:
  "tableInfo_loop i cols info = Inr info' \<Longrightarrow> list_all typeOK cols"
proof (induction cols arbitrary: i info)
  case Nil
  then show ?case by simp
next
  case (Cons c cols)
  from Cons.prems have "typeOK c"
    by (simp add: typeOK_def split: if_splits)
  moreover from Cons.prems have "list_all typeOK cols"
    by (simp split: if_splits) (erule Cons.IH)+
  ultimately show ?case by simp
qed

lemma tableInfo_loop_measurement:
  "tableInfo_loop i cols info = Inr info' \<Longrightarrow>
     (measurement info' = - 1) = (measurement info = - 1 \<and> ''_measurement'' \<notin> Name ` set cols)"
proof (induction cols arbitrary: i info)
  case Nil
  then show ?case by simp
next
  case (Cons c cols)
  show ?case
    using Cons.prems by (auto split: if_splits dest!: Cons.IH)
qed

lemma tableInfo_loop_field:
  "tableInfo_loop i cols info = Inr info' \<Longrightarrow>
     (field info' = - 1) = (field info = - 1 \<and> ''_field'' \<notin> Name ` set cols)"
proof (induction cols arbitrary: i info)
  case Nil
  then show ?case by simp
next
  case (Cons c cols)
  show ?case
    using Cons.prems by (auto split: if_splits dest!: Cons.IH)
qed

lemma tableInfo_loop_valueIdx:
  "tableInfo_loop i cols info = Inr info' \<Longrightarrow>
     (valueIdx info' = - 1) = (valueIdx info = - 1 \<and> ''_value'' \<notin> Name ` set cols)"
proof (induction cols arbitrary: i info)
  case Nil
  then show ?case by simp
next
  case (Cons c cols)
  show ?case
    using Cons.prems by (auto split: if_splits dest!: Cons.IH)
qed

lemma tableInfo_loop_timeIdx:
  "tableInfo_loop i cols info = Inr info' \<Longrightarrow>
     (timeIdx info' = - 1) = (timeIdx info = - 1 \<and> ''_time'' \<notin> Name ` set cols)"
proof (induction cols arbitrary: i info)
  case Nil
  then show ?case by simp
next
  case (Cons c cols)
  show ?case
    using Cons.prems by (auto split: if_splits dest!: Cons.IH)
qed

lemma tableInfo_loop_tagNames:
  "tableInfo_loop i cols info = Inr info' \<Longrightarrow>
     tagNames info' = tagNames info @ map (\<lambda>c. TrimPrefix (Name c) ''_'') (filter isTag cols)"
proof (induction cols arbitrary: i info)
  case Nil
  then show ?case by simp
next
  case (Cons c cols)
  show ?case
    using Cons.prems by (auto simp: isTag_def split: if_splits dest!: Cons.IH)
qed

lemma tableInfo_loop_tagIndexes:
  "tableInfo_loop i cols info = Inr info' \<Longrightarrow>
     tagIndexes info' = tagIndexes info @ map fst (filter (\<lambda>(k, c). isTag c) (enumerate i cols))"
proof (induction cols arbitrary: i info)
  case Nil
  then show ?case by simp
next
  case (Cons c cols)
  show ?case
    using Cons.prems by (auto simp: isTag_def split: if_splits dest!: Cons.IH)
qed

lemma tableInfo_loop_Inl:
  "tableInfo_loop i cols info = Inl e \<Longrightarrow>
     \<exists>c\<in>set cols. \<not> typeOK c \<and>
       e = ColumnWrongType (Name c) (Type c)
             (if Name c = ''_time'' then ''dateTime:*'' else ''string'')"
proof (induction cols arbitrary: i info)
  case Nil
  then show ?case by simp
next
  case (Cons c cols)
  show ?case
  proof (cases "typeOK c")
    case False
    with Cons.prems show ?thesis
      by (auto simp: typeOK_def split: if_splits)
  next
    case True
    with Cons.prems obtain i1 info1 where "tableInfo_loop i1 cols info1 = Inl e"
      by (auto simp: typeOK_def split: if_splits)
    from Cons.IH [OF this] show ?thesis by auto
  qed
qed

lemma typeOK_all:
  "list_all typeOK cols \<longleftrightarrow>
     \<not> ((\<exists>c\<in>set cols. Name c = ''_measurement'' \<and> Type c \<noteq> ''string'')
        \<or> (\<exists>c\<in>set cols. Name c = ''_field'' \<and> Type c \<noteq> ''string'')
        \<or> (\<exists>c\<in>set cols. Name c = ''_time'' \<and> \<not> HasPrefix (Type c) ''dateTime:''))"
  unfolding list_all_iff typeOK_def by blast

text \<open>When the helper fails, and what its error names.\<close>

lemma tableInfoForColumns_fails:
  "(isl (tableInfoForColumns cols) \<longleftrightarrow>
      (''_measurement'' \<notin> Name ` set cols \<or> ''_field'' \<notin> Name ` set cols
       \<or> ''_value'' \<notin> Name ` set cols \<or> ''_time'' \<notin> Name ` set cols
       \<or> (\<exists>c\<in>set cols. Name c = ''_measurement'' \<and> Type c \<noteq> ''string'')
       \<or> (\<exists>c\<in>set cols. Name c = ''_field'' \<and> Type c \<noteq> ''string'')
       \<or> (\<exists>c\<in>set cols. Name c = ''_time'' \<and> \<not> HasPrefix (Type c) ''dateTime:'')))
   \<and> (\<forall>e. tableInfoForColumns cols = Inl e \<longrightarrow>
         (\<exists>n\<in>set [''_measurement'', ''_field'', ''_value'', ''_time''].
            e = NoColumnFound n \<and> n \<notin> Name ` set cols)
         \<or> (\<exists>c\<in>set cols. (Name c = ''_measurement'' \<or> Name c = ''_field'')
               \<and> Type c \<noteq> ''string''
               \<and> e = ColumnWrongType (Name c) (Type c) ''string'')
         \<or> (\<exists>c\<in>set cols. Name c = ''_time'' \<and> \<not> HasPrefix (Type c) ''dateTime:''
               \<and> e = ColumnWrongType (Name c) (Type c) ''dateTime:*''))"
proof -
  let ?info0 = "\<lparr>measurement = - 1, field = - 1, valueIdx = - 1, timeIdx = - 1,
              tagNames = [], tagIndexes = []\<rparr>"
  let ?bad = "(\<exists>c\<in>set cols. Name c = ''_measurement'' \<and> Type c \<noteq> ''string'')
       \<or> (\<exists>c\<in>set cols. Name c = ''_field'' \<and> Type c \<noteq> ''string'')
       \<or> (\<exists>c\<in>set cols. Name c = ''_time'' \<and> \<not> HasPrefix (Type c) ''dateTime:'')"
  show ?thesis
  proof (cases "tableInfo_loop 0 cols ?info0")
    case (Inl e)
    then have res: "tableInfoForColumns cols = Inl e"
      by (simp add: tableInfoForColumns_def)
    from tableInfo_loop_Inl [OF Inl] obtain c where c: "c \<in> set cols" "\<not> typeOK c"
      "e = ColumnWrongType (Name c) (Type c)
             (if Name c = ''_time'' then ''dateTime:*'' else ''string'')"
      by blast
    from c(2) consider
        (m) "Name c = ''_measurement''" "Type c \<noteq> ''string''"
      | (f) "Name c = ''_field''" "Type c \<noteq> ''string''"
      | (t) "Name c = ''_time''" "\<not> HasPrefix (Type c) ''dateTime:''"
      unfolding typeOK_def by blast
    then have named:
      "(\<exists>c\<in>set cols. (Name c = ''_measurement'' \<or> Name c = ''_field'')
               \<and> Type c \<noteq> ''string''
               \<and> e = ColumnWrongType (Name c) (Type c) ''string'')
         \<or> (\<exists>c\<in>set cols. Name c = ''_time'' \<and> \<not> HasPrefix (Type c) ''dateTime:''
               \<and> e = ColumnWrongType (Name c) (Type c) ''dateTime:*'')"
    proof cases
      case m
      then have "e = ColumnWrongType (Name c) (Type c) ''string''" using c(3) by simp
      with m c(1) show ?thesis by blast
    next
      case f
      then have "e = ColumnWrongType (Name c) (Type c) ''string''" using c(3) by simp
      with f c(1) show ?thesis by blast
    next
      case t
      then have "e = ColumnWrongType (Name c) (Type c) ''dateTime:*''" using c(3) by simp
      with t c(1) show ?thesis by blast
    qed
    then have ?bad by blast
    with res named show ?thesis by simp
  next
    case (Inr info)
    have ok: "\<not> ?bad"
      using tableInfo_loop_typeOK [OF Inr] typeOK_all [of cols] by blast
    have m: "(measurement info = - 1) = (''_measurement'' \<notin> Name ` set cols)"
      using tableInfo_loop_measurement [OF Inr] by simp
    have f: "(field info = - 1) = (''_field'' \<notin> Name ` set cols)"
      using tableInfo_loop_field [OF Inr] by simp
    have v: "(valueIdx info = - 1) = (''_value'' \<notin> Name ` set cols)"
      using tableInfo_loop_valueIdx [OF Inr] by simp
    have t: "(timeIdx info = - 1) = (''_time'' \<notin> Name ` set cols)"
      using tableInfo_loop_timeIdx [OF Inr] by simp
    have res: "tableInfoForColumns cols =
       (if measurement info = - 1 then Inl (NoColumnFound ''_measurement'')
          else if field info = - 1 then Inl (NoColumnFound ''_field'')
          else if valueIdx info = - 1 then Inl (NoColumnFound ''_value'')
          else if timeIdx info = - 1 then Inl (NoColumnFound ''_time'')
          else Inr info)"
      using Inr by (simp add: tableInfoForColumns_def)
    have 1: "isl (tableInfoForColumns cols) \<longleftrightarrow>
      (''_measurement'' \<notin> Name ` set cols \<or> ''_field'' \<notin> Name ` set cols
       \<or> ''_value'' \<notin> Name ` set cols \<or> ''_time'' \<notin> Name ` set cols)"
      unfolding res m f v t by simp
    have 2: "\<exists>n\<in>set [''_measurement'', ''_field'', ''_value'', ''_time''].
            e = NoColumnFound n \<and> n \<notin> Name ` set cols"
      if "tableInfoForColumns cols = Inl e" for e
      using that unfolding res m f v t by (simp split: if_splits)
    from 1 2 ok show ?thesis by blast
  qed
qed

text \<open>The errors that writing a row can end with.\<close>

definition rowError :: "error \<Rightarrow> bool" where
  "rowError e =
     (case e of
        PanicIndexOutOfRange i n \<Rightarrow> True
      | PanicUnexpectedValueType T \<Rightarrow> True
      | UnexpectedValueTypeInValue T \<Rightarrow> True
      | PanicTypeAssertion T \<Rightarrow> True
      | _ \<Rightarrow> False)"

lemma index_rowError: "index rw i = Inl e \<Longrightarrow> rowError e"
  by (auto simp: index_def rowError_def split: if_splits)

lemma escapeValue_rowError: "escapeValue L v esc = Inl e \<Longrightarrow> rowError e"
  by (cases v) (auto simp: escapeValue_def rowError_def)

lemma fieldValue_rowError: "fieldValue L v = Inl e \<Longrightarrow> rowError e"
  by (cases v) (auto simp: fieldValue_def escapeValue_def andThen_def rowError_def)

lemma asTime_rowError: "asTime v = Inl e \<Longrightarrow> rowError e"
  by (cases v) (auto simp: asTime_def rowError_def)

lemma andThen_Inl:
  "andThen x f = Inl e \<Longrightarrow> x = Inl e \<or> (\<exists>a. x = Inr a \<and> f a = Inl e)"
  by (cases x) (simp_all add: andThen_def)

lemma writeTags_rowError: "writeTags L rw ts ln = Inl e \<Longrightarrow> rowError e"
proof (induction ts arbitrary: ln)
  case Nil
  then show ?case by simp
next
  case (Cons t ts)
  obtain n ix where t: "t = (n, ix)" by (cases t)
  from Cons.prems show ?case
    unfolding t writeTags.simps
    by (auto dest!: andThen_Inl dest: escapeValue_rowError index_rowError Cons.IH)
qed

lemma writeRow_rowError: "writeRow L info rw = Inl e \<Longrightarrow> rowError e"
  unfolding writeRow_def
  by (auto dest!: andThen_Inl
      dest: escapeValue_rowError index_rowError writeTags_rowError fieldValue_rowError
        asTime_rowError)

lemma writeRows_rowError: "writeRows L info rws out = (out', Some e) \<Longrightarrow> rowError e"
proof (induction rws arbitrary: out)
  case Nil
  then show ?case by simp
next
  case (Cons rw rws)
  show ?case
  proof (cases "writeRow L info rw")
    case (Inl e1)
    with Cons.prems writeRow_rowError [OF Inl] show ?thesis by simp
  next
    case (Inr ln)
    with Cons.prems Cons.IH show ?thesis by simp
  qed
qed

lemma writeTables_info_error:
  "snd (writeTables L ts out) = Some (CannotGetTableInfo e) \<Longrightarrow>
     \<exists>t\<in>set ts. tableInfoForColumns (fst t) = Inl e"
proof (induction ts arbitrary: out)
  case Nil
  then show ?case by simp
next
  case (Cons t ts)
  obtain cols rws where t: "t = (cols, rws)" by (cases t)
  show ?case
  proof (cases "tableInfoForColumns cols")
    case (Inl e1)
    with Cons.prems show ?thesis by (simp add: t)
  next
    case (Inr info)
    obtain out1 eo where w: "writeRows L info rws out = (out1, eo)" by force
    show ?thesis
    proof (cases eo)
      case None
      with Cons.prems Inr w have "snd (writeTables L ts out1) = Some (CannotGetTableInfo e)"
        by (simp add: t)
      from Cons.IH [OF this] show ?thesis by simp
    next
      case (Some e1)
      with Cons.prems Inr w have "e1 = CannotGetTableInfo e" by (simp add: t)
      with writeRows_rowError [OF w [unfolded Some]] show ?thesis
        by (simp add: rowError_def)
    qed
  qed
qed

lemma writeTables_append:
  "writeTables L (pre @ ts) out =
     (case writeTables L pre out of
        (out1, None) \<Rightarrow> writeTables L ts out1
      | (out1, Some e) \<Rightarrow> (out1, Some e))"
proof (induction pre arbitrary: out)
  case Nil
  show ?case by simp
next
  case (Cons t pre)
  obtain cols rws where t: "t = (cols, rws)" by (cases t)
  show ?case
    unfolding t using Cons.IH
    by (simp split: sum.splits prod.splits option.splits)
qed

text \<open>
  C8: the line-protocol encoding of a table fails with the error of
  \<open>tableInfoForColumns\<close>, wrapped as \<open>cannot get table info for columns\<close>, exactly
  when the table has no column named \<open>_measurement\<close>, \<open>_field\<close>, \<open>_value\<close> or
  \<open>_time\<close>, or a column named \<open>_measurement\<close> or \<open>_field\<close> whose type is not
  \<open>string\<close>, or a column named \<open>_time\<close> whose type does not start with
  \<open>dateTime:\<close>; no condition falls on the type of \<open>_value\<close>. The error names a
  column that is missing, or a column that is mistyped together with its type. The
  encoder returns it with nothing written for that table, after what the tables before
  it wrote, and returns such an error for no table whose columns pass.
\<close>

theorem tableInfoForColumns_fails_iff:
  "(isl (tableInfoForColumns cols) \<longleftrightarrow>
      (''_measurement'' \<notin> Name ` set cols \<or> ''_field'' \<notin> Name ` set cols
       \<or> ''_value'' \<notin> Name ` set cols \<or> ''_time'' \<notin> Name ` set cols
       \<or> (\<exists>c\<in>set cols. Name c = ''_measurement'' \<and> Type c \<noteq> ''string'')
       \<or> (\<exists>c\<in>set cols. Name c = ''_field'' \<and> Type c \<noteq> ''string'')
       \<or> (\<exists>c\<in>set cols. Name c = ''_time'' \<and> \<not> HasPrefix (Type c) ''dateTime:'')))
   \<and> (\<forall>e. tableInfoForColumns cols = Inl e \<longrightarrow>
         (\<exists>n\<in>set [''_measurement'', ''_field'', ''_value'', ''_time''].
            e = NoColumnFound n \<and> n \<notin> Name ` set cols)
         \<or> (\<exists>c\<in>set cols. (Name c = ''_measurement'' \<or> Name c = ''_field'')
               \<and> Type c \<noteq> ''string''
               \<and> e = ColumnWrongType (Name c) (Type c) ''string'')
         \<or> (\<exists>c\<in>set cols. Name c = ''_time'' \<and> \<not> HasPrefix (Type c) ''dateTime:''
               \<and> e = ColumnWrongType (Name c) (Type c) ''dateTime:*''))
   \<and> ((\<exists>e. snd (writeLineProtocol L [(cols, rws)]) = Some (CannotGetTableInfo e)) \<longleftrightarrow>
      (''_measurement'' \<notin> Name ` set cols \<or> ''_field'' \<notin> Name ` set cols
       \<or> ''_value'' \<notin> Name ` set cols \<or> ''_time'' \<notin> Name ` set cols
       \<or> (\<exists>c\<in>set cols. Name c = ''_measurement'' \<and> Type c \<noteq> ''string'')
       \<or> (\<exists>c\<in>set cols. Name c = ''_field'' \<and> Type c \<noteq> ''string'')
       \<or> (\<exists>c\<in>set cols. Name c = ''_time'' \<and> \<not> HasPrefix (Type c) ''dateTime:'')))
   \<and> (\<forall>e. writeLineProtocol L [(cols, rws)] = ([], Some (CannotGetTableInfo e)) \<longleftrightarrow>
         tableInfoForColumns cols = Inl e)
   \<and> (\<forall>e. snd (writeLineProtocol L [(cols, rws)]) = Some (CannotGetTableInfo e) \<longleftrightarrow>
         tableInfoForColumns cols = Inl e)
   \<and> (\<forall>pre post out e.
         writeLineProtocol L pre = (out, None) \<and> tableInfoForColumns cols = Inl e \<longrightarrow>
           writeLineProtocol L (pre @ (cols, rws) # post) = (out, Some (CannotGetTableInfo e)))
   \<and> (\<forall>tables e. snd (writeLineProtocol L tables) = Some (CannotGetTableInfo e) \<longrightarrow>
         (\<exists>t\<in>set tables. tableInfoForColumns (fst t) = Inl e))"
proof -
  let ?bad = "''_measurement'' \<notin> Name ` set cols \<or> ''_field'' \<notin> Name ` set cols
       \<or> ''_value'' \<notin> Name ` set cols \<or> ''_time'' \<notin> Name ` set cols
       \<or> (\<exists>c\<in>set cols. Name c = ''_measurement'' \<and> Type c \<noteq> ''string'')
       \<or> (\<exists>c\<in>set cols. Name c = ''_field'' \<and> Type c \<noteq> ''string'')
       \<or> (\<exists>c\<in>set cols. Name c = ''_time'' \<and> \<not> HasPrefix (Type c) ''dateTime:'')"
  note helper = tableInfoForColumns_fails [of cols]
  have iff: "isl (tableInfoForColumns cols) \<longleftrightarrow> ?bad"
    using helper by (rule conjunct1)
  have named: "\<forall>e. tableInfoForColumns cols = Inl e \<longrightarrow>
         (\<exists>n\<in>set [''_measurement'', ''_field'', ''_value'', ''_time''].
            e = NoColumnFound n \<and> n \<notin> Name ` set cols)
         \<or> (\<exists>c\<in>set cols. (Name c = ''_measurement'' \<or> Name c = ''_field'')
               \<and> Type c \<noteq> ''string''
               \<and> e = ColumnWrongType (Name c) (Type c) ''string'')
         \<or> (\<exists>c\<in>set cols. Name c = ''_time'' \<and> \<not> HasPrefix (Type c) ''dateTime:''
               \<and> e = ColumnWrongType (Name c) (Type c) ''dateTime:*'')"
    using helper by (rule conjunct2)
  have fail: "writeLineProtocol L [(cols, rws)] = ([], Some (CannotGetTableInfo e))"
    if "tableInfoForColumns cols = Inl e" for e
    using that by (simp add: writeLineProtocol_def)
  have only: "\<exists>t\<in>set tables. tableInfoForColumns (fst t) = Inl e"
    if "snd (writeLineProtocol L tables) = Some (CannotGetTableInfo e)" for tables e
    using that writeTables_info_error [of L tables "[]" e] by (simp add: writeLineProtocol_def)
  have one: "tableInfoForColumns cols = Inl e"
    if "snd (writeLineProtocol L [(cols, rws)]) = Some (CannotGetTableInfo e)" for e
    using only [OF that] by simp
  have e1: "(writeLineProtocol L [(cols, rws)] = ([], Some (CannotGetTableInfo e))) =
      (tableInfoForColumns cols = Inl e)" for e
  proof
    assume "writeLineProtocol L [(cols, rws)] = ([], Some (CannotGetTableInfo e))"
    then have "snd (writeLineProtocol L [(cols, rws)]) = Some (CannotGetTableInfo e)" by simp
    then show "tableInfoForColumns cols = Inl e" by (rule one)
  next
    assume "tableInfoForColumns cols = Inl e"
    then show "writeLineProtocol L [(cols, rws)] = ([], Some (CannotGetTableInfo e))"
      by (rule fail)
  qed
  have e2: "(snd (writeLineProtocol L [(cols, rws)]) = Some (CannotGetTableInfo e)) =
      (tableInfoForColumns cols = Inl e)" for e
    using one [of e] fail [of e] by auto
  have "(\<exists>e. snd (writeLineProtocol L [(cols, rws)]) = Some (CannotGetTableInfo e)) \<longleftrightarrow>
      isl (tableInfoForColumns cols)"
    unfolding e2 by (cases "tableInfoForColumns cols") simp_all
  then have enc: "(\<exists>e. snd (writeLineProtocol L [(cols, rws)]) = Some (CannotGetTableInfo e))
      \<longleftrightarrow> ?bad"
    unfolding iff .
  have app: "writeLineProtocol L (pre @ (cols, rws) # post) = (out, Some (CannotGetTableInfo e))"
    if "writeLineProtocol L pre = (out, None)" "tableInfoForColumns cols = Inl e"
    for pre post out e
    using that by (simp add: writeLineProtocol_def writeTables_append)
  from iff named enc e1 e2 app only show ?thesis by blast
qed

text \<open>Instances: a table with no \<open>_time\<close> column, and a mistyped \<open>_measurement\<close>.\<close>

theorem tableInfoForColumns_fails_iff_witness:
  "''_time'' \<notin> Name ` set [mkColumn ''_measurement'' ''string'', mkColumn ''_field'' ''string'',
        mkColumn ''_value'' ''double'']
   \<and> isl (tableInfoForColumns [mkColumn ''_measurement'' ''string'',
        mkColumn ''_field'' ''string'', mkColumn ''_value'' ''double''])
   \<and> tableInfoForColumns [mkColumn ''_measurement'' ''string'', mkColumn ''_field'' ''string'',
        mkColumn ''_value'' ''double''] = Inl (NoColumnFound ''_time'')
   \<and> tableInfoForColumns [mkColumn ''_measurement'' ''long''] =
        Inl (ColumnWrongType ''_measurement'' ''long'' ''string'')
   \<and> writeLineProtocol sampleLib
        [([mkColumn ''_measurement'' ''string'', mkColumn ''_field'' ''string'',
           mkColumn ''_value'' ''double''],
          [[VString ''cpu'', VString ''temp'', VFloat 0x3FF8000000000000]])] =
        ([], Some (CannotGetTableInfo (NoColumnFound ''_time'')))
   \<and> writeLineProtocol sampleLib
        [([mkColumn ''_measurement'' ''long''], [[VInt 1]])] =
        ([], Some (CannotGetTableInfo (ColumnWrongType ''_measurement'' ''long'' ''string'')))"
proof -
  let ?cols = "[mkColumn ''_measurement'' ''string'', mkColumn ''_field'' ''string'',
        mkColumn ''_value'' ''double'']"
  have h: "''_time'' \<notin> Name ` set ?cols"
    by (simp add: mkColumn_def)
  have 1: "isl (tableInfoForColumns ?cols)"
    using tableInfoForColumns_fails_iff [of ?cols] h by blast
  have 2: "tableInfoForColumns ?cols = Inl (NoColumnFound ''_time'')"
    by (simp add: tableInfoForColumns_def mkColumn_def)
  have 3: "tableInfoForColumns [mkColumn ''_measurement'' ''long''] =
        Inl (ColumnWrongType ''_measurement'' ''long'' ''string'')"
    by (simp add: tableInfoForColumns_def mkColumn_def)
  have 4: "writeLineProtocol sampleLib
        [(?cols, [[VString ''cpu'', VString ''temp'', VFloat 0x3FF8000000000000]])] =
        ([], Some (CannotGetTableInfo (NoColumnFound ''_time'')))"
    using tableInfoForColumns_fails_iff [of ?cols sampleLib
        "[[VString ''cpu'', VString ''temp'', VFloat 0x3FF8000000000000]]"] 2
    by blast
  have 5: "writeLineProtocol sampleLib
        [([mkColumn ''_measurement'' ''long''], [[VInt 1]])] =
        ([], Some (CannotGetTableInfo (ColumnWrongType ''_measurement'' ''long'' ''string'')))"
    using tableInfoForColumns_fails_iff [of "[mkColumn ''_measurement'' ''long'']" sampleLib
        "[[VInt 1]]"] 3
    by blast
  from h 1 2 3 4 5 show ?thesis by blast
qed

lemma writeTags_format:
  "writeTags L rw ts ln = Inr out \<Longrightarrow>
     out = ln @ concat (map (\<lambda>(n, ix). '','' @ Replace tagNameEscaper n @ ''='' @
                                 projr (escapeValue L (rw ! ix) tagValueEscaper)) ts)"
proof (induction ts arbitrary: ln)
  case Nil
  then show ?case by simp
next
  case (Cons t ts)
  obtain n ix where t: "t = (n, ix)" by (cases t)
  from Cons.prems obtain s where
    s: "escapeValue L (rw ! ix) tagValueEscaper = Inr s"
    and rest: "writeTags L rw ts (ln @ '','' @ Replace tagNameEscaper n @ ''='' @ s) = Inr out"
    unfolding t
    by (auto simp: andThen_def index_def escapeValue_def split: sum.splits if_splits)
  from Cons.IH [OF rest] s show ?case
    unfolding t by simp
qed

lemma zip_tags:
  "zip (map f (filter P cols)) (map fst (filter (\<lambda>(k, c). P c) (enumerate i cols))) =
   map (\<lambda>(k, c). (f c, k)) (filter (\<lambda>(k, c). P c) (enumerate i cols))"
  by (induction cols arbitrary: i) auto

text \<open>
  C9: the tag names of a table are the names of its tag columns in the order of the
  columns, each without one leading underscore, and the tag loop writes
  \<open>,key=value\<close> for them in that order. One underscore is stripped: \<open>_foo\<close> gives
  \<open>foo\<close> and \<open>__foo\<close> gives \<open>_foo\<close>; a name that does not start with an
  underscore is unchanged.
\<close>

theorem tag_key_strips_one_underscore:
  "(\<forall>info. tableInfoForColumns cols = Inr info \<longrightarrow>
       tagNames info = map (\<lambda>c. TrimPrefix (Name c) ''_'') (filter isTag cols)
     \<and> tagIndexes info = map fst (filter (\<lambda>(k, c). isTag c) (enumerate 0 cols))
     \<and> (\<forall>out. writeTags L rw (zip (tagNames info) (tagIndexes info)) ln = Inr out \<longrightarrow>
          out = ln @ concat (map (\<lambda>(k, c). '','' @
                    Replace tagNameEscaper (TrimPrefix (Name c) ''_'') @ ''='' @
                    projr (escapeValue L (rw ! k) tagValueEscaper))
                  (filter (\<lambda>(k, c). isTag c) (enumerate 0 cols)))))
   \<and> TrimPrefix (CHR ''_'' # n) ''_'' = n
   \<and> (\<not> HasPrefix n ''_'' \<longrightarrow> TrimPrefix n ''_'' = n)
   \<and> TrimPrefix ''_foo'' ''_'' = ''foo''
   \<and> TrimPrefix ''__foo'' ''_'' = ''_foo''"
proof -
  let ?info0 = "\<lparr>measurement = - 1, field = - 1, valueIdx = - 1, timeIdx = - 1,
              tagNames = [], tagIndexes = []\<rparr>"
  have A: "tagNames info = map (\<lambda>c. TrimPrefix (Name c) ''_'') (filter isTag cols)
     \<and> tagIndexes info = map fst (filter (\<lambda>(k, c). isTag c) (enumerate 0 cols))
     \<and> (\<forall>out. writeTags L rw (zip (tagNames info) (tagIndexes info)) ln = Inr out \<longrightarrow>
          out = ln @ concat (map (\<lambda>(k, c). '','' @
                    Replace tagNameEscaper (TrimPrefix (Name c) ''_'') @ ''='' @
                    projr (escapeValue L (rw ! k) tagValueEscaper))
                  (filter (\<lambda>(k, c). isTag c) (enumerate 0 cols))))"
    if ok: "tableInfoForColumns cols = Inr info" for info
  proof -
    from ok have loop: "tableInfo_loop 0 cols ?info0 = Inr info"
      by (simp add: tableInfoForColumns_def split: sum.splits if_splits)
    have n: "tagNames info = map (\<lambda>c. TrimPrefix (Name c) ''_'') (filter isTag cols)"
      using tableInfo_loop_tagNames [OF loop] by simp
    have x: "tagIndexes info = map fst (filter (\<lambda>(k, c). isTag c) (enumerate 0 cols))"
      using tableInfo_loop_tagIndexes [OF loop] by simp
    have w: "out = ln @ concat (map (\<lambda>(k, c). '','' @
                    Replace tagNameEscaper (TrimPrefix (Name c) ''_'') @ ''='' @
                    projr (escapeValue L (rw ! k) tagValueEscaper))
                  (filter (\<lambda>(k, c). isTag c) (enumerate 0 cols)))"
      if "writeTags L rw (zip (tagNames info) (tagIndexes info)) ln = Inr out" for out
      using writeTags_format [OF that] unfolding n x zip_tags
      by (simp add: comp_def case_prod_unfold)
    from n x w show ?thesis by blast
  qed
  have B: "TrimPrefix (CHR ''_'' # n) ''_'' = n"
    by (simp add: TrimPrefix_def HasPrefix_def)
  have C: "\<not> HasPrefix n ''_'' \<longrightarrow> TrimPrefix n ''_'' = n"
    by (simp add: TrimPrefix_def)
  have D: "TrimPrefix ''_foo'' ''_'' = ''foo''" "TrimPrefix ''__foo'' ''_'' = ''_foo''"
    by (simp_all add: TrimPrefix_def HasPrefix_def)
  from A B C D show ?thesis by blast
qed

text \<open>A table with three tag columns among the four reserved ones.\<close>

definition tagExampleColumns :: "column list" where
  "tagExampleColumns =
     [mkColumn ''_measurement'' ''string'', mkColumn ''_foo'' ''string'',
      mkColumn ''_field'' ''string'', mkColumn ''__foo'' ''string'',
      mkColumn ''_value'' ''long'', mkColumn ''bar'' ''string'',
      mkColumn ''_time'' ''dateTime:RFC3339'']"

definition tagExampleInfo :: tableInfo where
  "tagExampleInfo =
     \<lparr>measurement = 0, field = 2, valueIdx = 4, timeIdx = 6,
      tagNames = [''foo'', ''_foo'', ''bar''], tagIndexes = [1, 3, 5]\<rparr>"

text \<open>An instance, with the line written for one row.\<close>

theorem tag_key_strips_one_underscore_witness:
  "tableInfoForColumns tagExampleColumns = Inr tagExampleInfo
   \<and> map (\<lambda>c. TrimPrefix (Name c) ''_'') (filter isTag tagExampleColumns) =
         [''foo'', ''_foo'', ''bar'']
   \<and> \<not> HasPrefix ''bar'' ''_'' \<and> TrimPrefix ''bar'' ''_'' = ''bar''
   \<and> writeLineProtocol sampleLib
         [(tagExampleColumns,
           [[VString ''m'', VString ''x'', VString ''f'', VString ''y'', VInt 7, VString ''z'',
             VTime \<lparr>unixSec = 1672531200, nsec = 0\<rparr>]])] =
       (''m,foo=x,_foo=y,bar=z f=7i 1672531200000000000'' @ [CHR 0x0A], None)"
proof -
  have ok: "tableInfoForColumns tagExampleColumns = Inr tagExampleInfo"
    by (simp add: tableInfoForColumns_def tagExampleColumns_def tagExampleInfo_def mkColumn_def
        HasPrefix_def TrimPrefix_def)
  have nb: "\<not> HasPrefix ''bar'' ''_''"
    by (simp add: HasPrefix_def)
  have 1: "tagNames tagExampleInfo =
      map (\<lambda>c. TrimPrefix (Name c) ''_'') (filter isTag tagExampleColumns)"
    using tag_key_strips_one_underscore [of tagExampleColumns] ok by blast
  have 2: "TrimPrefix ''bar'' ''_'' = ''bar''"
    using tag_key_strips_one_underscore [of _ _ _ _ "''bar''"] nb by blast
  have 3: "writeLineProtocol sampleLib
         [(tagExampleColumns,
           [[VString ''m'', VString ''x'', VString ''f'', VString ''y'', VInt 7, VString ''z'',
             VTime \<lparr>unixSec = 1672531200, nsec = 0\<rparr>]])] =
       (''m,foo=x,_foo=y,bar=z f=7i 1672531200000000000'' @ [CHR 0x0A], None)"
    by (simp add: writeLineProtocol_def ok tagExampleInfo_def writeRow_def andThen_def
        index_def escapeValue_def Replace_def measurementEscaper_def tagNameEscaper_def
        tagValueEscaper_def fieldNameEscaper_def fieldValue_def asTime_def UnixNano_def
        showInt_def showNat.simps digitChar_def)
  from ok 1 2 3 nb show ?thesis by (simp add: tagExampleInfo_def)
qed

text \<open>
  C3: the table with columns \<open>_measurement\<close> (string), \<open>_field\<close> (string),
  \<open>_value\<close> (double), \<open>_time\<close> (dateTime:RFC3339) and the tag column \<open>host\<close>,
  and the single row cpu, temp, 1.5, 2023-01-01T00:00:00Z, a, is written as the line
  \<open>cpu,host=a temp=1.5 1672531200000000000\<close> and a newline, when \<open>fmt\<close> prints
  the float 1.5 as \<open>1.5\<close>. The time is 1672531200 seconds after the Unix epoch, and
  the float 1.5 has the bits \<open>0x3FF8000000000000\<close>.
\<close>

theorem line_protocol_example:
  "SprintFloat L 0x3FF8000000000000 = ''1.5'' \<Longrightarrow>
   writeLineProtocol L
     [([mkColumn ''_measurement'' ''string'', mkColumn ''_field'' ''string'',
        mkColumn ''_value'' ''double'', mkColumn ''_time'' ''dateTime:RFC3339'',
        mkColumn ''host'' hostType],
       [[VString ''cpu'', VString ''temp'', VFloat 0x3FF8000000000000,
         VTime \<lparr>unixSec = 1672531200, nsec = 0\<rparr>, VString ''a'']])] =
   (''cpu,host=a temp=1.5 1672531200000000000'' @ [CHR 0x0A], None)"
  by (simp add: writeLineProtocol_def tableInfoForColumns_def mkColumn_def HasPrefix_def
      TrimPrefix_def writeRow_def andThen_def index_def escapeValue_def Replace_def
      measurementEscaper_def tagNameEscaper_def tagValueEscaper_def fieldNameEscaper_def
      fieldValue_def asTime_def UnixNano_def showInt_def showNat.simps digitChar_def)

text \<open>The same with the sample library, which prints 1.5 so.\<close>

theorem line_protocol_example_witness:
  "SprintFloat sampleLib 0x3FF8000000000000 = ''1.5''
   \<and> writeLineProtocol sampleLib
     [([mkColumn ''_measurement'' ''string'', mkColumn ''_field'' ''string'',
        mkColumn ''_value'' ''double'', mkColumn ''_time'' ''dateTime:RFC3339'',
        mkColumn ''host'' ''string''],
       [[VString ''cpu'', VString ''temp'', VFloat 0x3FF8000000000000,
         VTime \<lparr>unixSec = 1672531200, nsec = 0\<rparr>, VString ''a'']])] =
   (''cpu,host=a temp=1.5 1672531200000000000'' @ [CHR 0x0A], None)"
proof -
  have h: "SprintFloat sampleLib 0x3FF8000000000000 = ''1.5''"
    by (simp add: sampleLib_def)
  from h line_protocol_example [OF h, of "''string''"] show ?thesis by (rule conjI)
qed

section \<open>Properties of the table decoder\<close>

text \<open>The definitions that evaluate the decoder on an input.\<close>

lemmas eval_decoder =
  readAll_def readAll_loop.simps readTable_def readHeader_def readHeader_loop.simps
  readTableRows_def readTableRows_loop.simps headerCols_def setNames_def setTypes_def
  setGroups_def columnsMap_def column0_def Peek_def Read_def csv_Read_def csv_nth_def
  NewReader_def HasPrefix_def convertToType_def ParseInt_def ParseUint_def parseUint10_def
  isDigit_def digitVal_def ParseBool_def



























section \<open>Errors of decoding\<close>

lemma readTable_synced:
  assumes "synced rd"
  shows "synced (snd (readTable L rd)) \<and> results (r (snd (readTable L rd))) = results (r rd)"
proof -
  obtain res rdh where H: "readHeader L rd = (res, rdh)" by (metis prod.exhaust)
  have sh: "synced rdh" "results (r rdh) = results (r rd)"
    using readHeader_synced [OF assms, of L] H by simp_all
  show ?thesis
  proof (cases res)
    case (Inl e)
    with H sh show ?thesis by (simp add: readTable_def)
  next
    case (Inr cols)
    have "snd (readTable L rd) = snd (readTableRows_loop L rdh cols [])"
      using H Inr
      by (simp add: readTable_def readTableRows_def split: prod.splits option.splits)
    with readTableRows_loop_synced [OF sh(1), of L cols "[]"] sh(2) show ?thesis by simp
  qed
qed










section \<open>Tables that follow one another\<close>

text \<open>An error with its line number moved \<open>k\<close> rows down.\<close>

definition shiftLine :: "nat \<Rightarrow> error \<Rightarrow> error" where
  "shiftLine k e =
     (case e of
        NoColumns n \<Rightarrow> NoColumns (n + k)
      | InconsistentColumns n \<Rightarrow> InconsistentColumns (n + k)
      | CannotParse v t n \<Rightarrow> CannotParse v t (n + k)
      | _ \<Rightarrow> e)"

definition shiftResult :: "nat \<Rightarrow> error + 'a \<Rightarrow> error + 'a" where
  "shiftResult k x = (case x of Inl e \<Rightarrow> Inl (shiftLine k e) | Inr a \<Rightarrow> Inr a)"

lemma shiftResult_simps:
  "shiftResult k (Inl e) = Inl (shiftLine k e)"
  "shiftResult k (Inr a) = Inr a"
  by (simp_all add: shiftResult_def)

text \<open>
  Two readers that have the same records ahead of them, the first \<open>k\<close> rows further
  down its input than the second.
\<close>

definition aligned :: "nat \<Rightarrow> csvReader \<Rightarrow> csvReader \<Rightarrow> bool" where
  "aligned k rd rd' =
     (synced rd \<and> synced rd' \<and> nextIdx rd = nextIdx rd' + k
      \<and> (\<forall>i. csv_nth (results (r rd)) (nextIdx rd + i) =
               csv_nth (results (r rd')) (nextIdx rd' + i)))"

lemma aligned_turn:
  assumes "aligned k rd rd'"
  obtains rw eo rd1 rd2 rd1' rd2' where
    "Peek rd = ((rw, eo), rd1)" "Read rd1 = ((rw, eo), rd2)"
    "Peek rd' = ((rw, eo), rd1')" "Read rd1' = ((rw, eo), rd2')"
    "aligned k rd1 rd1'" "aligned k rd2 rd2'" "line rd2 = line rd2' + k"
proof -
  from assms have s: "synced rd" and s': "synced rd'"
    and n: "nextIdx rd = nextIdx rd' + k"
    unfolding aligned_def by blast+
  from assms have same: "csv_nth (results (r rd)) (nextIdx rd + i) =
               csv_nth (results (r rd')) (nextIdx rd' + i)" for i
    unfolding aligned_def by blast
  from s obtain rw eo rd1 rd2 where
    a: "csv_nth (results (r rd)) (nextIdx rd) = (rw, eo)"
    "Peek rd = ((rw, eo), rd1)" "Read rd1 = ((rw, eo), rd2)"
    "synced rd1" "nextIdx rd1 = nextIdx rd" "results (r rd1) = results (r rd)"
    "synced rd2" "nextIdx rd2 = nextIdx rd + 1" "line rd2 = nextIdx rd + 1"
    "results (r rd2) = results (r rd)"
    by (rule synced_turn)
  from s' obtain rw' eo' rd1' rd2' where
    b: "csv_nth (results (r rd')) (nextIdx rd') = (rw', eo')"
    "Peek rd' = ((rw', eo'), rd1')" "Read rd1' = ((rw', eo'), rd2')"
    "synced rd1'" "nextIdx rd1' = nextIdx rd'" "results (r rd1') = results (r rd')"
    "synced rd2'" "nextIdx rd2' = nextIdx rd' + 1" "line rd2' = nextIdx rd' + 1"
    "results (r rd2') = results (r rd')"
    by (rule synced_turn)
  from same [of 0] a(1) b(1) have eq: "rw' = rw" "eo' = eo" by simp_all
  note same' = same [unfolded n]
  have 1: "aligned k rd1 rd1'"
    using a b n same' by (simp add: aligned_def)
  have 2: "aligned k rd2 rd2'"
    using a b n same' [of "Suc i" for i] by (simp add: aligned_def)
  have 3: "line rd2 = line rd2' + k"
    using a b n by simp
  from that [OF a(2,3) b(2,3) [unfolded eq] 1 2 3] show ?thesis .
qed

lemma shiftLine_simps:
  "shiftLine k (NoColumns n) = NoColumns (n + k)"
  "shiftLine k (InconsistentColumns n) = InconsistentColumns (n + k)"
  "shiftLine k (CannotParse v t n) = CannotParse v t (n + k)"
  "shiftLine k (InconsistentHeader g w) = InconsistentHeader g w"
  "shiftLine k (CannotConvertDefault v t e) = CannotConvertDefault v t e"
  by (simp_all add: shiftLine_def)

lemma headerCols_shift:
  "headerCols (n + k) c rw = shiftResult k (headerCols n c rw)"
  by (simp add: headerCols_def shiftLine_simps shiftResult_simps split: option.splits)

lemma rowFields_shift:
  "rowFields L (n + k) fs m = shiftResult k (rowFields L n fs m)"
proof (induction fs arbitrary: m)
  case Nil
  show ?case by (simp add: shiftResult_simps)
next
  case (Cons f fs)
  obtain c v where f: "f = (c, v)" by (cases f)
  show ?case
  proof (cases "convertToType L v (Type c)")
    case (Inl e)
    show ?thesis
      unfolding f rowFields.simps Inl Cons.IH by (simp add: shiftLine_simps shiftResult_simps)
  next
    case (Inr x)
    show ?thesis
      unfolding f rowFields.simps Inr Cons.IH by simp
  qed
qed

definition shiftExit :: "nat \<Rightarrow> header_exit \<Rightarrow> header_exit" where
  "shiftExit k x = (case x of HError e \<Rightarrow> HError (shiftLine k e) | _ \<Rightarrow> x)"

lemma readHeader_loop_aligned:
  "aligned k rd rd' \<Longrightarrow>
     fst (readHeader_loop rd c d) = shiftExit k (fst (readHeader_loop rd' c d))
     \<and> aligned k (snd (readHeader_loop rd c d)) (snd (readHeader_loop rd' c d))"
proof (induction "remaining rd" arbitrary: rd rd' c d rule: less_induct)
  case less
  from less.prems obtain rw eo rd1 rd2 rd1' rd2' where
    P: "Peek rd = ((rw, eo), rd1)" and R: "Read rd1 = ((rw, eo), rd2)"
    and P': "Peek rd' = ((rw, eo), rd1')" and R': "Read rd1' = ((rw, eo), rd2')"
    and a1: "aligned k rd1 rd1'" and a2: "aligned k rd2 rd2'"
    and ln: "line rd2 = line rd2' + k"
    by (rule aligned_turn)
  show ?case
  proof (cases eo)
    case (Some e)
    with P P' a1 show ?thesis
      by (simp add: readHeader_loop_error shiftExit_def)
  next
    case None
    note st = readHeader_loop_step [OF P [unfolded None] R, of c d]
    note st' = readHeader_loop_step [OF P' [unfolded None] R', of c d]
    have lt: "remaining rd2 < remaining rd"
      using remaining_Read_Peek [OF P [unfolded None]] R by simp
    note hc = headerCols_shift [of "line rd2'" k c rw, folded ln]
    show ?thesis
    proof (cases "headerCols (line rd2') c rw")
      case (Inl e1)
      with hc have "headerCols (line rd2) c rw = Inl (shiftLine k e1)"
        by (simp add: shiftResult_simps)
      with Inl st st' a2 show ?thesis
        by (simp add: shiftExit_def)
    next
      case (Inr cs)
      with hc have hc2: "headerCols (line rd2) c rw = Inr cs"
        by (simp add: shiftResult_simps)
      show ?thesis
      proof (cases "HasPrefix (rw ! 0) ''#''")
        case False
        with Inr hc2 st st' a2 show ?thesis
          by (simp add: shiftExit_def)
      next
        case True
        from less.hyps [OF lt a2, of "fst (headerStep cs rw d)" "snd (headerStep cs rw d)"]
          True Inr hc2 st st'
        show ?thesis by simp
      qed
    qed
  qed
qed

lemma readHeader_aligned:
  assumes "aligned k rd rd'"
  shows "fst (readHeader L rd) = shiftResult k (fst (readHeader L rd'))
     \<and> aligned k (snd (readHeader L rd)) (snd (readHeader L rd'))"
proof -
  obtain x rdo where l: "readHeader_loop rd None None = (x, rdo)" by (metis prod.exhaust)
  obtain x' rdo' where l': "readHeader_loop rd' None None = (x', rdo')" by (metis prod.exhaust)
  from readHeader_loop_aligned [OF assms, of None None] l l'
  have x: "x = shiftExit k x'" and a: "aligned k rdo rdo'" by simp_all
  have s: "snd (readHeader L rd) = rdo" "snd (readHeader L rd') = rdo'"
    using l l' by (simp_all add: snd_readHeader)
  have "fst (readHeader L rd) = shiftResult k (fst (readHeader L rd'))"
  proof (cases x')
    case (HReturn cols)
    with x l l' show ?thesis
      by (simp add: readHeader_def shiftExit_def shiftResult_simps)
  next
    case (HError e)
    with x l l' show ?thesis
      by (simp add: readHeader_def shiftExit_def shiftResult_simps)
  next
    case (HBreak cs ds)
    have nd: "shiftResult k (convertDefaults L ds' is cs') = convertDefaults L ds' is cs'"
      for ds' "is" cs'
    proof (cases "convertDefaults L ds' is cs'")
      case (Inl e)
      from convertDefaults_error [OF Inl] Inl show ?thesis
        by (auto simp: shiftResult_simps shiftLine_simps)
    next
      case (Inr v)
      then show ?thesis by (simp add: shiftResult_simps)
    qed
    from HBreak x l l' show ?thesis
      by (simp add: readHeader_def shiftExit_def shiftResult_simps nd split: option.splits)
  qed
  with a s show ?thesis by simp
qed

lemma readTableRows_loop_aligned:
  "aligned k rd rd' \<Longrightarrow>
     fst (fst (readTableRows_loop L rd cols rows)) =
       fst (fst (readTableRows_loop L rd' cols rows))
     \<and> snd (fst (readTableRows_loop L rd cols rows)) =
       map_option (shiftLine k) (snd (fst (readTableRows_loop L rd' cols rows)))
     \<and> aligned k (snd (readTableRows_loop L rd cols rows))
         (snd (readTableRows_loop L rd' cols rows))"
proof (induction "remaining rd" arbitrary: rd rd' rows rule: less_induct)
  case less
  from less.prems obtain rw eo rd1 rd2 rd1' rd2' where
    P: "Peek rd = ((rw, eo), rd1)" and R: "Read rd1 = ((rw, eo), rd2)"
    and P': "Peek rd' = ((rw, eo), rd1')" and R': "Read rd1' = ((rw, eo), rd2')"
    and a1: "aligned k rd1 rd1'" and a2: "aligned k rd2 rd2'"
    and ln: "line rd2 = line rd2' + k"
    by (rule aligned_turn)
  have r2: "snd (Read rd1) = rd2" "snd (Read rd1') = rd2'" using R R' by simp_all
  note rf = rowFields_shift [of L "line rd2'" k "zip cols rw" Map.empty, folded ln]
  from P' show ?case
  proof (cases rule: readTableRows_loop_cases [where L = L and cols = cols and rows = rows])
    case stop
    from stop(1) have "readTableRows_loop L rd cols rows = ((rows, None), rd1)"
    proof
      assume "eo \<noteq> None"
      then obtain e where "eo = Some e" by blast
      with P show ?thesis by (simp add: readTableRows_loop_error)
    next
      assume an: "isAnnotation rw"
      show ?thesis
      proof (cases eo)
        case None
        with P an show ?thesis by (simp add: readTableRows_loop_annotation)
      next
        case (Some e)
        with P show ?thesis by (simp add: readTableRows_loop_error)
      qed
    qed
    with stop(2) a1 show ?thesis by simp
  next
    case count
    from readTableRows_loop_count [OF P [unfolded count(1)] count(2,3), of L rows] count(4) a2 ln r2
    show ?thesis by (simp add: shiftLine_simps)
  next
    case (field e)
    from field(4) rf r2 have "rowFields L (line (snd (Read rd1))) (zip cols rw) Map.empty
        = Inl (shiftLine k e)"
      by (simp add: shiftResult_simps)
    from readTableRows_loop_fields_error [OF P [unfolded field(1)] field(2,3) this, of rows]
      field(5) a2 r2
    show ?thesis by simp
  next
    case (more m)
    from more(4) rf r2 have "rowFields L (line (snd (Read rd1))) (zip cols rw) Map.empty = Inr m"
      by (simp add: shiftResult_simps)
    note st = readTableRows_loop_next [OF P [unfolded more(1)] more(2,3) this, of rows]
    have lt: "remaining rd2 < remaining rd"
      using remaining_Read_Peek [OF P [unfolded more(1)]] R by simp
    from less.hyps [OF lt a2, of "rows @ [m]"] st more(5) r2
    show ?thesis by simp
  qed
qed

lemma readTable_aligned:
  assumes "aligned k rd rd'"
  shows "fst (readTable L rd) = shiftResult k (fst (readTable L rd'))
     \<and> aligned k (snd (readTable L rd)) (snd (readTable L rd'))"
proof -
  obtain res rdh where H: "readHeader L rd = (res, rdh)" by (metis prod.exhaust)
  obtain res' rdh' where H': "readHeader L rd' = (res', rdh')" by (metis prod.exhaust)
  from readHeader_aligned [OF assms, of L] H H'
  have res: "res = shiftResult k res'" and ah: "aligned k rdh rdh'" by simp_all
  show ?thesis
  proof (cases res')
    case (Inl e)
    with res H H' ah show ?thesis
      by (simp add: readTable_def shiftResult_simps)
  next
    case (Inr cols)
    with res have r: "res = Inr cols" by (simp add: shiftResult_simps)
    obtain rows eo rdo where T: "readTableRows_loop L rdh cols [] = ((rows, eo), rdo)"
      by (metis prod.exhaust)
    obtain rows' eo' rdo' where T': "readTableRows_loop L rdh' cols [] = ((rows', eo'), rdo')"
      by (metis prod.exhaust)
    from readTableRows_loop_aligned [OF ah, of L cols "[]"] T T'
    have "rows = rows'" "eo = map_option (shiftLine k) eo'" "aligned k rdo rdo'"
      by simp_all
    with H H' r Inr T T' show ?thesis
      by (cases eo') (simp_all add: readTable_def readTableRows_def shiftResult_simps)
  qed
qed

lemma readAll_loop_step:
  "readTable L rd = (Inr t, rd1) \<Longrightarrow> Peek rd1 = ((rw, eo), rd2) \<Longrightarrow>
     readAll_loop L rd ts =
       (case eo of
          Some e \<Rightarrow> if e = EOF then ((ts @ [t], None), rd2) else (([], Some e), rd2)
        | None \<Rightarrow> readAll_loop L rd2 (ts @ [t]))"
  by (subst readAll_loop.simps) (simp split: option.splits)

lemma readAll_loop_aligned:
  "aligned k rd rd' \<Longrightarrow> snd (fst (readAll_loop L rd' ts')) = None \<Longrightarrow>
     \<exists>new. fst (readAll_loop L rd' ts') = (ts' @ new, None)
       \<and> fst (readAll_loop L rd ts) = (ts @ new, None)"
proof (induction "remaining rd'" arbitrary: rd rd' ts ts' rule: less_induct)
  case less
  obtain res rd1 where T: "readTable L rd = (res, rd1)" by (metis prod.exhaust)
  obtain res' rd1' where T': "readTable L rd' = (res', rd1')" by (metis prod.exhaust)
  from readTable_aligned [OF less.prems(1), of L] T T'
  have res: "res = shiftResult k res'" and a1: "aligned k rd1 rd1'" by simp_all
  show ?case
  proof (cases res')
    case (Inl e)
    with T' less.prems(2) show ?thesis
      by (subst (asm) readAll_loop.simps) simp
  next
    case (Inr t)
    with res have r: "res = Inr t" by (simp add: shiftResult_simps)
    from a1 obtain rw eo rd2 rd2' where
      P: "Peek rd1 = ((rw, eo), rd2)" and P': "Peek rd1' = ((rw, eo), rd2')"
      and a2: "aligned k rd2 rd2'"
      by (rule aligned_turn)
    note st = readAll_loop_step [OF T [unfolded r] P, of ts]
    note st' = readAll_loop_step [OF T' [unfolded Inr] P', of ts']
    show ?thesis
    proof (cases eo)
      case (Some e)
      with st' less.prems(2) have "e = EOF" by (simp split: if_splits)
      with Some st st' show ?thesis by simp
    next
      case None
      have lt: "remaining rd2' < remaining rd'"
        using readTable_progress [OF T' [unfolded Inr] P' [unfolded None]] .
      from less.prems(2) st' None
      have "snd (fst (readAll_loop L rd2' (ts' @ [t]))) = None" by simp
      from less.hyps [OF lt a2 this, of "ts @ [t]"] obtain new where
        "fst (readAll_loop L rd2' (ts' @ [t])) = ((ts' @ [t]) @ new, None)"
        "fst (readAll_loop L rd2 (ts @ [t])) = ((ts @ [t]) @ new, None)"
        by blast
      with st st' None show ?thesis
        by (intro exI [of _ "t # new"]) simp
    qed
  qed
qed

text \<open>
  C5: when the row decoder peeks an annotation row it returns the rows it has, and the
  row stays peeked: the next \<open>Peek\<close> and the next \<open>Read\<close> deliver it. So the table
  decoded after a first table is the table decoded from the rest of the input alone:
  when the first table of the input \<open>rs1 @ rs2\<close> is decoded and the decoder stops
  where \<open>rs2\<close> starts, decoding the next table gives what decoding \<open>rs2\<close> from a new
  reader gives, with the line numbers of errors counted from the start of the whole
  input; nothing of the columns, types or defaults of the first table enters. And
  when \<open>rs2\<close>, starting with a row, decodes to the tables \<open>ts2\<close>, the whole input
  decodes to the first table followed by \<open>ts2\<close>.
\<close>

theorem next_table_is_independent:
  "(\<forall>rd rw rd1 cols rows. Peek rd = ((rw, None), rd1) \<and> isAnnotation rw \<longrightarrow>
       readTableRows_loop L rd cols rows = ((rows, None), rd1)
       \<and> Peek rd1 = ((rw, None), rd1) \<and> fst (Read rd1) = (rw, None))
   \<and> (\<forall>rs1 rs2 t1 rd1.
         readTable L (NewReader (rs1 @ rs2)) = (Inr t1, rd1) \<and> nextIdx rd1 = length rs1 \<longrightarrow>
           fst (readTable L rd1) = shiftResult (length rs1) (fst (readTable L (NewReader rs2)))
           \<and> (\<forall>ts2. rs2 \<noteq> [] \<and> snd (hd rs2) = None
                 \<and> fst (readAll L (NewReader rs2)) = (ts2, None) \<longrightarrow>
                 fst (readAll L (NewReader (rs1 @ rs2))) = (t1 # ts2, None)))"
proof -
  have A: "readTableRows_loop L rd cols rows = ((rows, None), rd1)
       \<and> Peek rd1 = ((rw, None), rd1) \<and> fst (Read rd1) = (rw, None)"
    if P: "Peek rd = ((rw, None), rd1)" and an: "isAnnotation rw" for rd rw rd1 cols rows
  proof -
    have rd1: "rd1 = snd (Peek rd)" and f: "fst (Peek rd) = (rw, None)" using P by simp_all
    have "Peek rd1 = ((rw, None), rd1)"
      unfolding rd1 using Peek_Peek [of rd] f by simp
    moreover have "fst (Read (snd (Peek rd))) = fst (Peek rd)"
      by (simp add: Peek_def Read_def)
    ultimately show ?thesis
      using readTableRows_loop_annotation [OF P an, of L cols rows] rd1 f by simp
  qed
  have B: "fst (readTable L rd1) = shiftResult (length rs1) (fst (readTable L (NewReader rs2)))
           \<and> (\<forall>ts2. rs2 \<noteq> [] \<and> snd (hd rs2) = None
                 \<and> fst (readAll L (NewReader rs2)) = (ts2, None) \<longrightarrow>
                 fst (readAll L (NewReader (rs1 @ rs2))) = (t1 # ts2, None))"
    if T: "readTable L (NewReader (rs1 @ rs2)) = (Inr t1, rd1)"
      and n: "nextIdx rd1 = length rs1" for rs1 rs2 t1 rd1
  proof -
    have s1: "synced rd1" "results (r rd1) = rs1 @ rs2"
      using readTable_synced [OF synced_NewReader(1), of L "rs1 @ rs2"] T
      by (simp_all add: synced_NewReader)
    have nth: "csv_nth (rs1 @ rs2) (length rs1 + i) = csv_nth rs2 i" for i
      by (simp add: csv_nth_def nth_append)
    have al: "aligned (length rs1) rd1 (NewReader rs2)"
      using s1 n nth by (simp add: aligned_def synced_NewReader)
    have 1: "fst (readTable L rd1) =
        shiftResult (length rs1) (fst (readTable L (NewReader rs2)))"
      using readTable_aligned [OF al] by blast
    have 2: "fst (readAll L (NewReader (rs1 @ rs2))) = (t1 # ts2, None)"
      if ne: "rs2 \<noteq> []" and ok: "snd (hd rs2) = None"
        and all2: "fst (readAll L (NewReader rs2)) = (ts2, None)" for ts2
    proof -
      from s1(1) obtain rw eo rd2 where
        c: "csv_nth (results (r rd1)) (nextIdx rd1) = (rw, eo)"
        and P: "Peek rd1 = ((rw, eo), rd2)"
        and s2: "synced rd2" "nextIdx rd2 = nextIdx rd1" "results (r rd2) = results (r rd1)"
        by (rule synced_turn)
      from c ne ok have eo: "eo = None"
        unfolding s1(2) n using nth [of 0]
        by (cases rs2) (auto simp: csv_nth_def)
      have al2: "aligned (length rs1) rd2 (NewReader rs2)"
        using s1 s2 n nth by (simp add: aligned_def synced_NewReader)
      from all2 have "snd (fst (readAll_loop L (NewReader rs2) [])) = None"
        by (simp add: readAll_def)
      from readAll_loop_aligned [OF al2 this, of "[t1]"] all2
      have "fst (readAll_loop L rd2 [t1]) = ([t1] @ ts2, None)"
        by (auto simp: readAll_def)
      with readAll_loop_step [OF T P, of "[]"] eo show ?thesis
        by (simp add: readAll_def)
    qed
    from 1 2 show ?thesis by blast
  qed
  from A B show ?thesis by blast
qed

text \<open>
  An instance: a table with the columns \<open>host\<close> and \<open>value\<close>, then a table with the
  column \<open>ok\<close> of type \<open>boolean\<close> and default \<open>true\<close>.
\<close>

definition firstTable :: "record_result list" where
  "firstTable =
     [([''#datatype'', ''string'', ''long''], None),
      (['''', ''host'', ''value''], None),
      (['''', ''a'', ''1''], None)]"

definition secondTable :: "record_result list" where
  "secondTable =
     [([''#datatype'', ''boolean''], None),
      ([''#default'', ''true''], None),
      (['''', ''ok''], None),
      (['''', ''false''], None),
      (['''', ''''], None)]"

theorem next_table_is_independent_witness:
  "\<not> isl (fst (readTable sampleLib (NewReader (firstTable @ secondTable))))
   \<and> nextIdx (snd (readTable sampleLib (NewReader (firstTable @ secondTable)))) =
       length firstTable
   \<and> fst (readTable sampleLib (snd (readTable sampleLib (NewReader (firstTable @ secondTable)))))
       = shiftResult (length firstTable) (fst (readTable sampleLib (NewReader secondTable)))
   \<and> snd (fst (readAll sampleLib (NewReader secondTable))) = None
   \<and> fst (readAll sampleLib (NewReader (firstTable @ secondTable))) =
       (projr (fst (readTable sampleLib (NewReader (firstTable @ secondTable))))
          # fst (fst (readAll sampleLib (NewReader secondTable))), None)
   \<and> map Rows (fst (fst (readAll sampleLib (NewReader secondTable)))) =
       [[Map.empty(''ok'' \<mapsto> VBool False), Map.empty(''ok'' \<mapsto> VBool True)]]
   \<and> map Rows (fst (fst (readAll sampleLib (NewReader (firstTable @ secondTable))))) =
       [[Map.empty(''host'' \<mapsto> VString ''a'', ''value'' \<mapsto> VInt 1)],
        [Map.empty(''ok'' \<mapsto> VBool False), Map.empty(''ok'' \<mapsto> VBool True)]]"
proof -
  let ?rd1 = "snd (readTable sampleLib (NewReader (firstTable @ secondTable)))"
  let ?t1 = "projr (fst (readTable sampleLib (NewReader (firstTable @ secondTable))))"
  let ?ts2 = "fst (fst (readAll sampleLib (NewReader secondTable)))"
  have ok1: "\<not> isl (fst (readTable sampleLib (NewReader (firstTable @ secondTable))))"
    by (simp add: eval_decoder firstTable_def secondTable_def)
  then have T: "readTable sampleLib (NewReader (firstTable @ secondTable)) = (Inr ?t1, ?rd1)"
    by (cases "fst (readTable sampleLib (NewReader (firstTable @ secondTable)))")
       (simp_all add: prod_eq_iff)
  have n: "nextIdx ?rd1 = length firstTable"
    by (simp add: eval_decoder firstTable_def secondTable_def nextIdx_def)
  have ne: "secondTable \<noteq> []" "snd (hd secondTable) = None"
    by (simp_all add: secondTable_def)
  have ok2: "snd (fst (readAll sampleLib (NewReader secondTable))) = None"
    by (simp add: eval_decoder secondTable_def)
  then have all2: "fst (readAll sampleLib (NewReader secondTable)) = (?ts2, None)"
    by (simp add: prod_eq_iff)
  note inst = next_table_is_independent [of sampleLib, THEN conjunct2, rule_format,
      of firstTable secondTable "?t1" "?rd1", OF conjI [OF T n]]
  have 1: "fst (readTable sampleLib ?rd1) =
      shiftResult (length firstTable) (fst (readTable sampleLib (NewReader secondTable)))"
    using inst by blast
  have 2: "fst (readAll sampleLib (NewReader (firstTable @ secondTable))) = (?t1 # ?ts2, None)"
    using inst ne all2 by blast
  have 3: "map Rows ?ts2 =
       [[Map.empty(''ok'' \<mapsto> VBool False), Map.empty(''ok'' \<mapsto> VBool True)]]"
    by (simp add: eval_decoder secondTable_def)
  have 4: "map Rows (fst (fst (readAll sampleLib (NewReader (firstTable @ secondTable))))) =
       [[Map.empty(''host'' \<mapsto> VString ''a'', ''value'' \<mapsto> VInt 1)],
        [Map.empty(''ok'' \<mapsto> VBool False), Map.empty(''ok'' \<mapsto> VBool True)]]"
    by (simp add: eval_decoder firstTable_def secondTable_def)
  from ok1 n 1 ok2 2 3 4 show ?thesis by blast
qed

end
